theory Spec2Isabelle
  imports Complex_Main
begin

section \<open>Shared conventions\<close>

text \<open>
  The development embeds the step-recording and playback code of the algorithm
  visualizer: \<^verbatim>\<open>SortingVisualizer\<close>, \<^verbatim>\<open>SearchVisualizer\<close>, the start guard and the
  playback of \<^verbatim>\<open>PathfindingVisualizer\<close>, the search operation and the playback of
  \<^verbatim>\<open>TreeVisualizer\<close>, \<^verbatim>\<open>GraphVisualizer\<close>, and the performance history of
  \<^verbatim>\<open>Application\<close>.

  \<^item> A \<^verbatim>\<open>std::vector<int>\<close> is an \<open>int list\<close>; \<^verbatim>\<open>size_t\<close> cursors are \<open>nat\<close>
    (every decrement in the code is guarded by \<^verbatim>\<open>> 0\<close>); \<^verbatim>\<open>int\<close> loop variables,
    indices and counters are \<open>int\<close>. The counters are bounded by the number of recorded
    steps, far below \<open>2^31\<close> for the array sizes the controls allow (at most 500), so the
    wrap-around of \<^verbatim>\<open>int\<close> is not written out.
  \<^item> A clock reading (\<^verbatim>\<open>steady_clock::now()\<close>, \<^verbatim>\<open>high_resolution_clock::now()\<close>) is an
    input of the operation that takes it: an \<open>int\<close> count of nanoseconds. Readings of
    one clock taken back to back in one method, with no recorded work between them, are
    one parameter.
  \<^item> \<^verbatim>\<open>float\<close> speeds are \<open>real\<close> numbers; rounding of \<^verbatim>\<open>float\<close> arithmetic is not modelled.
    The probe of Interpolation Search and the step delay of the pathfinding controller,
    integers that the code computes in floating point, are inputs of the model.
  \<^item> Calls into the audio manager and the ImGui drawing code change no field of the
    controllers and are left out.
\<close>

type_synonym time_point = int

definition duration_cast_ms :: "int \<Rightarrow> int" where
  \<comment> \<open>\<^verbatim>\<open>duration_cast<milliseconds>\<close> of a nanosecond count: truncation toward zero\<close>
  "duration_cast_ms d = (if 0 \<le> d then d div 1000000 else - ((- d) div 1000000))"

definition digit_char :: "nat \<Rightarrow> char" where
  "digit_char d = ''0123456789'' ! d"

function string_of_nat :: "nat \<Rightarrow> string" where
  "string_of_nat n =
     (if n < 10 then [digit_char n]
      else string_of_nat (n div 10) @ [digit_char (n mod 10)])"
  by pat_completeness auto
termination
  by (relation "measure id") auto

definition to_string :: "int \<Rightarrow> string" where
  \<comment> \<open>what \<^verbatim>\<open>fmt::format("{}", i)\<close> prints for an integer\<close>
  "to_string i =
     (if i < 0 then CHR ''-'' # string_of_nat (nat (- i)) else string_of_nat (nat i))"

definition clamp :: "'a::linorder \<Rightarrow> 'a \<Rightarrow> 'a \<Rightarrow> 'a" where
  \<comment> \<open>\<^verbatim>\<open>std::clamp(v, lo, hi)\<close>\<close>
  "clamp v lo hi = (if v < lo then lo else if hi < v then hi else v)"

section \<open>SortingVisualizer\<close>

datatype SortingAlgorithm =
    SortingAlgorithm_BubbleSort
  | SortingAlgorithm_SelectionSort
  | SortingAlgorithm_InsertionSort
  | SortingAlgorithm_QuickSort
  | SortingAlgorithm_MergeSort
  | SortingAlgorithm_HeapSort
  | SortingAlgorithm_TournamentSort
  | SortingAlgorithm_IntroSort
  | SortingAlgorithm_PatienceSort

datatype AnimationState = Stopped | Running | Paused | Completed

record SortingStep =
  array :: "int list"
  compareIndex1 :: int
  compareIndex2 :: int
  pivotIndex :: int
  swapped :: bool
  description :: string

text \<open>
  One invocation of \<^verbatim>\<open>m_performanceCallback(name, time, comparisons, swaps)\<close>. The
  controllers append every invocation to \<open>callbackLog\<close>, in call order; the host
  (\<^verbatim>\<open>Application::Initialize\<close>) has wired the callback to
  \<^verbatim>\<open>ReportAlgorithmPerformance\<close>, modelled below.
\<close>

record PerformanceCall =
  call_name :: string
  call_time :: int
  call_comparisons :: int
  call_swaps :: int

record SortingVisualizer =
  m_array :: "int list"
  m_originalArray :: "int list"
  m_sortingSteps :: "SortingStep list"
  m_currentAlgorithm :: SortingAlgorithm
  m_state :: AnimationState
  m_currentStepIndex :: nat
  m_animationSpeed :: real
  m_selectedSpeed :: real
  m_lastUpdate :: time_point
  m_stepDelay :: int
  m_animationStartTime :: time_point
  m_isTimingActive :: bool
  m_comparisons :: int
  m_swaps :: int
  m_algorithmGenerationTime :: int
  m_currentAnimationTime :: int
  m_performanceCallback :: bool
  m_sortStartTime :: time_point
  m_totalComparisons :: int
  m_totalSwaps :: int
  callbackLog :: "PerformanceCall list"

definition RecordStep ::
  "int list \<Rightarrow> int \<Rightarrow> int \<Rightarrow> int \<Rightarrow> bool \<Rightarrow> string \<Rightarrow> SortingVisualizer \<Rightarrow> SortingVisualizer"
where
  "RecordStep arr comp1 comp2 pivot swp desc s =
     s\<lparr>m_sortingSteps := m_sortingSteps s @
        [\<lparr>array = arr, compareIndex1 = comp1, compareIndex2 = comp2,
          pivotIndex = pivot, swapped = swp, description = desc\<rparr>]\<rparr>"

definition ClearSteps :: "SortingVisualizer \<Rightarrow> SortingVisualizer" where
  "ClearSteps s = s\<lparr>m_sortingSteps := [], m_currentStepIndex := 0\<rparr>"

definition swap_at :: "int list \<Rightarrow> int \<Rightarrow> int \<Rightarrow> int list" where
  \<comment> \<open>\<^verbatim>\<open>std::swap(arr[a], arr[b])\<close>, both indices in range at every call\<close>
  "swap_at arr a b = arr[nat a := arr ! nat b, nat b := arr ! nat a]"

text \<open>
  The inner loop of \<^verbatim>\<open>BubbleSort\<close>: \<^verbatim>\<open>for (j = 0; j < n - i - 1; ++j)\<close>, from its
  current \<open>j\<close>, on the local copy \<open>arr\<close>. Every read is at \<open>j\<close> or \<open>j + 1\<close> with
  \<open>0 \<le> j\<close> and \<open>j + 1 < n\<close>.
\<close>

function BubbleSort_inner ::
  "int \<Rightarrow> int \<Rightarrow> int \<Rightarrow> int list \<Rightarrow> SortingVisualizer \<Rightarrow> int list \<times> SortingVisualizer"
where
  "BubbleSort_inner n i j arr s =
     (if j < n - i - 1 then
        let s1 = RecordStep arr j (j + 1) (- 1) False
                   (''Comparing elements at positions '' @ to_string j @ '' and '' @
                    to_string (j + 1)) s;
            s2 = s1\<lparr>m_comparisons := m_comparisons s1 + 1\<rparr>
        in if arr ! nat j > arr ! nat (j + 1) then
             let arr' = swap_at arr j (j + 1);
                 s3 = s2\<lparr>m_swaps := m_swaps s2 + 1\<rparr>;
                 s4 = RecordStep arr' j (j + 1) (- 1) True
                        (''Swapping elements at positions '' @ to_string j @ '' and '' @
                         to_string (j + 1)) s3
             in BubbleSort_inner n i (j + 1) arr' s4
           else BubbleSort_inner n i (j + 1) arr s2
      else (arr, s))"
  by pat_completeness auto
termination
  by (relation "measure (\<lambda>(n, i, j, arr, s). nat (n - i - 1 - j))") auto

text \<open>The outer loop: \<^verbatim>\<open>for (i = 0; i < n - 1; ++i)\<close>, from its current \<open>i\<close>.\<close>

function BubbleSort_outer ::
  "int \<Rightarrow> int \<Rightarrow> int list \<Rightarrow> SortingVisualizer \<Rightarrow> int list \<times> SortingVisualizer"
where
  "BubbleSort_outer n i arr s =
     (if i < n - 1 then
        case BubbleSort_inner n i 0 arr s of
          (arr', s') \<Rightarrow> BubbleSort_outer n (i + 1) arr' s'
      else (arr, s))"
  by pat_completeness auto
termination
  by (relation "measure (\<lambda>(n, i, arr, s). nat (n - 1 - i))") auto

definition BubbleSort :: "SortingVisualizer \<Rightarrow> SortingVisualizer" where
  "BubbleSort s =
     (let arr = m_array s;
          n = int (length arr)
      in case BubbleSort_outer n 0 arr s of
           (arr', s') \<Rightarrow> RecordStep arr' (- 1) (- 1) (- 1) False ''Bubble sort completed!'' s')"

definition GetAlgorithmName :: "SortingAlgorithm \<Rightarrow> string" where
  "GetAlgorithmName algorithm =
     (case algorithm of
        SortingAlgorithm_BubbleSort \<Rightarrow> ''Bubble Sort''
      | SortingAlgorithm_SelectionSort \<Rightarrow> ''Selection Sort''
      | SortingAlgorithm_InsertionSort \<Rightarrow> ''Insertion Sort''
      | SortingAlgorithm_QuickSort \<Rightarrow> ''Quick Sort''
      | SortingAlgorithm_MergeSort \<Rightarrow> ''Merge Sort''
      | SortingAlgorithm_HeapSort \<Rightarrow> ''Heap Sort''
      | SortingAlgorithm_TournamentSort \<Rightarrow> ''Tournament Sort''
      | SortingAlgorithm_IntroSort \<Rightarrow> ''Intro Sort''
      | SortingAlgorithm_PatienceSort \<Rightarrow> ''Patience Sort'')"

definition ExecuteCurrentStep :: "SortingVisualizer \<Rightarrow> SortingVisualizer" where
  "ExecuteCurrentStep s =
     (if m_sortingSteps s \<noteq> [] \<and> m_currentStepIndex s < length (m_sortingSteps s)
      then s\<lparr>m_array := array (m_sortingSteps s ! m_currentStepIndex s)\<rparr>
      else s)"

definition StepForward :: "time_point \<Rightarrow> SortingVisualizer \<Rightarrow> SortingVisualizer" where
  "StepForward now s =
     (if m_sortingSteps s \<noteq> [] \<and> m_currentStepIndex s < length (m_sortingSteps s) then
        let s1 = ExecuteCurrentStep s;
            s2 = s1\<lparr>m_currentStepIndex := m_currentStepIndex s1 + 1\<rparr>
        in if m_currentStepIndex s2 \<ge> length (m_sortingSteps s2) then
             let s3 = s2\<lparr>m_state := Completed, m_isTimingActive := False\<rparr>
             in if m_performanceCallback s3 then
                  s3\<lparr>callbackLog := callbackLog s3 @
                       [\<lparr>call_name = GetAlgorithmName (m_currentAlgorithm s3),
                         call_time = duration_cast_ms (now - m_sortStartTime s3),
                         call_comparisons = m_comparisons s3,
                         call_swaps = m_swaps s3\<rparr>]\<rparr>
                else s3
           else s2
      else s)"

definition StepBackward :: "SortingVisualizer \<Rightarrow> SortingVisualizer" where
  "StepBackward s =
     (if m_currentStepIndex s > 0 then
        let s1 = s\<lparr>m_currentStepIndex := m_currentStepIndex s - 1\<rparr>;
            s2 = ExecuteCurrentStep s1
        in if m_state s2 = Completed then s2\<lparr>m_state := Paused\<rparr> else s2
      else s)"

text \<open>
  \<^verbatim>\<open>StartSorting\<close> dispatches on the selected algorithm. \<^verbatim>\<open>BubbleSort\<close> is embedded
  above. Each of the other eight executors (\<^verbatim>\<open>SelectionSort\<close> ... \<^verbatim>\<open>PatienceSort\<close>)
  reads \<^verbatim>\<open>m_array\<close> into a local copy and writes nothing but \<^verbatim>\<open>m_sortingSteps\<close>
  (through \<^verbatim>\<open>RecordStep\<close>), \<^verbatim>\<open>m_comparisons\<close> and \<^verbatim>\<open>m_swaps\<close> (by increments). They are
  the parameter \<open>executors\<close>: from the algorithm and the array, the steps recorded and
  the two increments (each of them returns on the arrays of 10 to 500 elements that
  \<^verbatim>\<open>SetArraySize\<close> allows). Every statement below holds whatever they record. \<open>t0\<close> is
  the clock reading before the executor runs, \<open>t1\<close> the reading after it.
\<close>

type_synonym executors = "SortingAlgorithm \<Rightarrow> int list \<Rightarrow> SortingStep list \<times> int \<times> int"

definition run_executor :: "executors \<Rightarrow> SortingVisualizer \<Rightarrow> SortingVisualizer" where
  "run_executor ex s =
     (case m_currentAlgorithm s of
        SortingAlgorithm_BubbleSort \<Rightarrow> BubbleSort s
      | other \<Rightarrow>
          (case ex other (m_array s) of
             (steps, c, w) \<Rightarrow>
               s\<lparr>m_sortingSteps := m_sortingSteps s @ steps,
                 m_comparisons := m_comparisons s + c,
                 m_swaps := m_swaps s + w\<rparr>))"

definition StartSorting ::
  "executors \<Rightarrow> time_point \<Rightarrow> time_point \<Rightarrow> SortingVisualizer \<Rightarrow> SortingVisualizer"
where
  "StartSorting ex t0 t1 s =
     (let s' =
        (if m_state s = Stopped then
           let s1 = s\<lparr>m_sortStartTime := t0, m_totalComparisons := 0, m_totalSwaps := 0\<rparr>;
               s2 = ClearSteps s1;
               s3 = s2\<lparr>m_comparisons := 0, m_swaps := 0\<rparr>;
               s4 = run_executor ex s3
           in s4\<lparr>m_algorithmGenerationTime := duration_cast_ms (t1 - t0),
                 m_currentStepIndex := 0\<rparr>
         else s)
      in s'\<lparr>m_state := Running, m_lastUpdate := t1, m_animationStartTime := t1,
            m_isTimingActive := True, m_currentAnimationTime := 0\<rparr>)"

definition PauseSorting :: "SortingVisualizer \<Rightarrow> SortingVisualizer" where
  "PauseSorting s =
     (if m_state s = Running then s\<lparr>m_state := Paused, m_isTimingActive := False\<rparr> else s)"

definition ResetArray :: "SortingVisualizer \<Rightarrow> SortingVisualizer" where
  "ResetArray s =
     (let s1 = s\<lparr>m_state := Stopped, m_array := m_originalArray s, m_currentStepIndex := 0\<rparr>;
          s2 = ClearSteps s1
      in s2\<lparr>m_comparisons := 0, m_swaps := 0, m_algorithmGenerationTime := 0,
            m_currentAnimationTime := 0, m_isTimingActive := False\<rparr>)"

text \<open>
  \<^verbatim>\<open>SetAnimationSpeed\<close>: the delay is \<open>\<lfloor>100 / v\<rfloor>\<close> in exact arithmetic. The \<^verbatim>\<open>float\<close>
  quotient of the code can differ from it by one where \<open>100 / v\<close> is within rounding
  distance of a whole number; no statement below depends on the value of the delay.
\<close>

definition SetAnimationSpeed :: "real \<Rightarrow> SortingVisualizer \<Rightarrow> SortingVisualizer" where
  "SetAnimationSpeed speed s =
     (let v = clamp speed (1 / 10) 10
      in s\<lparr>m_animationSpeed := v, m_selectedSpeed := v, m_stepDelay := \<lfloor>100 / v\<rfloor>\<rparr>)"

definition Update :: "time_point \<Rightarrow> SortingVisualizer \<Rightarrow> SortingVisualizer" where
  "Update now s =
     (if m_state s = Running then
        let elapsed = duration_cast_ms (now - m_lastUpdate s);
            s1 = (if m_isTimingActive s
                  then s\<lparr>m_currentAnimationTime :=
                            duration_cast_ms (now - m_animationStartTime s)\<rparr>
                  else s)
        in if elapsed \<ge> m_stepDelay s1
           then (StepForward now s1)\<lparr>m_lastUpdate := now\<rparr>
           else s1
      else s)"

text \<open>The state of a freshly constructed controller on a given array (the header's defaults).\<close>

definition SortingVisualizer_init :: "int list \<Rightarrow> SortingVisualizer" where
  "SortingVisualizer_init xs =
     \<lparr>m_array = xs, m_originalArray = xs, m_sortingSteps = [],
      m_currentAlgorithm = SortingAlgorithm_BubbleSort, m_state = Stopped,
      m_currentStepIndex = 0, m_animationSpeed = 1, m_selectedSpeed = 1,
      m_lastUpdate = 0, m_stepDelay = 100, m_animationStartTime = 0,
      m_isTimingActive = False, m_comparisons = 0, m_swaps = 0,
      m_algorithmGenerationTime = 0, m_currentAnimationTime = 0,
      m_performanceCallback = True, m_sortStartTime = 0,
      m_totalComparisons = 0, m_totalSwaps = 0, callbackLog = []\<rparr>"

section \<open>SearchVisualizer\<close>

text \<open>
  Names that \<^verbatim>\<open>SearchVisualizer\<close> shares with \<^verbatim>\<open>SortingVisualizer\<close> carry the suffix
  \<open>_sv\<close>. \<^verbatim>\<open>m_arraySize\<close> and \<^verbatim>\<open>m_maxComparisons\<close> (a displayed estimate computed from
  \<^verbatim>\<open>m_arraySize\<close> with floating-point \<^verbatim>\<open>log2\<close> and \<^verbatim>\<open>sqrt\<close>) take no part in recording
  or playback and are not fields of the model.
\<close>

datatype SearchAlgorithm =
    SearchAlgorithm_LinearSearch
  | SearchAlgorithm_BinarySearch
  | SearchAlgorithm_InterpolationSearch
  | SearchAlgorithm_ExponentialSearch
  | SearchAlgorithm_JumpSearch

record SearchStep =
  step_description :: string
  currentIndex :: int
  lowIndex :: int
  highIndex :: int
  foundIndex :: int
  isComparison :: bool
  isFound :: bool
  searchRange :: "int list"

definition SearchStep_default :: SearchStep where
  \<comment> \<open>a default-constructed \<^verbatim>\<open>SearchStep\<close>\<close>
  "SearchStep_default =
     \<lparr>step_description = [], currentIndex = - 1, lowIndex = - 1, highIndex = - 1,
      foundIndex = - 1, isComparison = False, isFound = False, searchRange = []\<rparr>"

record SearchVisualizer =
  m_array_sv :: "int list"
  m_steps :: "SearchStep list"
  m_currentAlgorithm_sv :: SearchAlgorithm
  m_targetValue :: int
  m_currentStep :: nat
  m_isRunning :: bool
  m_isComplete :: bool
  m_targetFound :: bool
  m_foundIndex :: int
  m_startTime :: time_point
  m_endTime :: time_point
  m_searchTime :: real
  m_comparisons_sv :: int
  m_animationSpeed_sv :: real
  m_lastStepTime :: time_point
  m_performanceCallback_sv :: bool
  m_searchStartTime :: time_point
  m_totalComparisons_sv :: int
  callbackLog_sv :: "PerformanceCall list"

text \<open>
  What the C++ leaves undefined is an error value of the model: a read of \<^verbatim>\<open>m_array\<close>
  outside its bounds, and a loop that cannot advance.
\<close>

datatype undefined_behaviour = OutOfRangeRead | Diverges

definition read_at :: "int list \<Rightarrow> int \<Rightarrow> int option" where
  "read_at xs i = (if 0 \<le> i \<and> i < int (length xs) then Some (xs ! nat i) else None)"

definition GetAlgorithmName_sv :: "SearchAlgorithm \<Rightarrow> string" where
  "GetAlgorithmName_sv algorithm =
     (case algorithm of
        SearchAlgorithm_LinearSearch \<Rightarrow> ''Linear Search''
      | SearchAlgorithm_BinarySearch \<Rightarrow> ''Binary Search''
      | SearchAlgorithm_InterpolationSearch \<Rightarrow> ''Interpolation Search''
      | SearchAlgorithm_ExponentialSearch \<Rightarrow> ''Exponential Search''
      | SearchAlgorithm_JumpSearch \<Rightarrow> ''Jump Search'')"

definition RecordStep_sv ::
  "string \<Rightarrow> int \<Rightarrow> int \<Rightarrow> int \<Rightarrow> bool \<Rightarrow> SearchVisualizer \<Rightarrow> SearchVisualizer"
where
  "RecordStep_sv desc cur low high cmp s =
     s\<lparr>m_steps := m_steps s @
        [SearchStep_default\<lparr>step_description := desc, currentIndex := cur,
           lowIndex := low, highIndex := high, isComparison := cmp\<rparr>]\<rparr>"

definition push_found :: "string \<Rightarrow> int \<Rightarrow> SearchVisualizer \<Rightarrow> SearchVisualizer" where
  \<comment> \<open>the block \<^verbatim>\<open>SearchStep step; step.description = ...; step.foundIndex = ...;
      step.isFound = true; m_steps.push_back(step);\<close>\<close>
  "push_found desc idx s =
     s\<lparr>m_steps := m_steps s @
        [SearchStep_default\<lparr>step_description := desc, foundIndex := idx, isFound := True\<rparr>]\<rparr>"

definition CompleteSearch :: "time_point \<Rightarrow> int \<Rightarrow> SearchVisualizer \<Rightarrow> SearchVisualizer" where
  "CompleteSearch now foundIdx s =
     (if m_performanceCallback_sv s then
        s\<lparr>callbackLog_sv := callbackLog_sv s @
            [\<lparr>call_name = GetAlgorithmName_sv (m_currentAlgorithm_sv s),
              call_time = duration_cast_ms (now - m_searchStartTime s),
              call_comparisons = m_totalComparisons_sv s,
              call_swaps = 0\<rparr>]\<rparr>
      else s)"

definition ResetSearch :: "SearchVisualizer \<Rightarrow> SearchVisualizer" where
  "ResetSearch s =
     s\<lparr>m_steps := [], m_currentStep := 0, m_isRunning := False, m_isComplete := False,
       m_targetFound := False, m_foundIndex := - 1, m_comparisons_sv := 0,
       m_searchTime := 0\<rparr>"

subsection \<open>Linear search\<close>

function LinearSearch_loop ::
  "time_point \<Rightarrow> int \<Rightarrow> nat \<Rightarrow> SearchVisualizer \<Rightarrow> SearchVisualizer"
where
  "LinearSearch_loop now target i s =
     (if i < length (m_array_sv s) then
        let step = SearchStep_default
                     \<lparr>step_description := ''Checking element at index '' @ to_string (int i) @
                          '': '' @ to_string (m_array_sv s ! i),
                      currentIndex := int i, isComparison := True\<rparr>;
            s1 = s\<lparr>m_steps := m_steps s @ [step]\<rparr>;
            s2 = s1\<lparr>m_totalComparisons_sv := m_totalComparisons_sv s1 + 1\<rparr>
        in if m_array_sv s2 ! i = target then
             let step' = step\<lparr>step_description := ''Found target '' @ to_string target @
                                 '' at index '' @ to_string (int i),
                               foundIndex := int i, isFound := True\<rparr>;
                 s3 = s2\<lparr>m_steps := m_steps s2 @ [step']\<rparr>
             in CompleteSearch now (int i) s3
           else LinearSearch_loop now target (i + 1) s2
      else
        CompleteSearch now (- 1)
          (s\<lparr>m_steps := m_steps s @
                [SearchStep_default\<lparr>step_description := ''Target not found in array''\<rparr>]\<rparr>))"
  by pat_completeness auto
termination
  by (relation "measure (\<lambda>(now, target, i, s). length (m_array_sv s) - i)") auto

definition LinearSearch :: "time_point \<Rightarrow> int \<Rightarrow> SearchVisualizer \<Rightarrow> SearchVisualizer" where
  "LinearSearch now target s = LinearSearch_loop now target 0 s"

subsection \<open>Binary search\<close>

text \<open>
  In the loops below \<^verbatim>\<open>(high - low) / 2\<close> divides a number that is not negative
  (\<^verbatim>\<open>low <= high\<close>), where the truncation of C++ and \<open>div\<close> agree.
\<close>

function BinarySearch_loop ::
  "time_point \<Rightarrow> int \<Rightarrow> int \<Rightarrow> int \<Rightarrow> SearchVisualizer \<Rightarrow>
   undefined_behaviour + SearchVisualizer"
where
  "BinarySearch_loop now target low high s =
     (if low \<le> high then
        let mid = low + (high - low) div 2
        in case read_at (m_array_sv s) mid of
             None \<Rightarrow> Inl OutOfRangeRead
           | Some v \<Rightarrow>
               let s1 = RecordStep_sv
                          (''Checking middle element at index '' @ to_string mid @
                           '' (value: '' @ to_string v @ '')'') mid low high True s
               in if v = target then
                    Inr (CompleteSearch now mid
                          (push_found ''Search completed successfully!'' mid
                            (RecordStep_sv
                               (''Found target '' @ to_string target @ '' at index '' @
                                to_string mid @ ''!'') mid low high False s1)))
                  else if v < target then
                    BinarySearch_loop now target (mid + 1) high
                      (RecordStep_sv
                         (''Target is greater than '' @ to_string v @
                          '', searching right half'') mid low high False s1)
                  else
                    BinarySearch_loop now target low (mid - 1)
                      (RecordStep_sv
                         (''Target is less than '' @ to_string v @
                          '', searching left half'') mid low high False s1)
      else Inr (CompleteSearch now (- 1) s))"
  by pat_completeness auto
termination
  by (relation "measure (\<lambda>(now, target, low, high, s). nat (high - low + 1))") auto

definition BinarySearch ::
  "time_point \<Rightarrow> int \<Rightarrow> SearchVisualizer \<Rightarrow> undefined_behaviour + SearchVisualizer"
where
  "BinarySearch now target s =
     (let low = 0;
          high = int (length (m_array_sv s)) - 1
      in BinarySearch_loop now target low high
           (RecordStep_sv ''Starting Binary Search'' (- 1) low high False s))"

subsection \<open>Interpolation search\<close>

text \<open>
  The probe position is computed in floating point and converted to \<^verbatim>\<open>int\<close>:

  \<^verbatim>\<open>int pos = low + ((double)(target - m_array[low]) / (m_array[high] - m_array[low])) * (high - low);\<close>

  The value of this expression is a function of the five integers it reads: \<^verbatim>\<open>low\<close>,
  \<^verbatim>\<open>high\<close>, \<^verbatim>\<open>target\<close>, \<^verbatim>\<open>m_array[low]\<close> and \<^verbatim>\<open>m_array[high]\<close>. Which function it is
  depends on the arithmetic of the build: the rounding of the quotient and of the product
  in \<^verbatim>\<open>double\<close>, whether the compiler contracts the product and the sum into one fused
  operation, the wrap-around of the two \<^verbatim>\<open>int\<close> subtractions, and the \<^verbatim>\<open>int\<close> that the
  conversion delivers when the quotient is not a number (\<^verbatim>\<open>m_array[low] == m_array[high]\<close>
  with \<^verbatim>\<open>low < high\<close>). The model takes that function as the parameter \<open>probe\<close> of the
  executor and makes no assumption about it: every statement about Interpolation Search
  below holds for every \<open>probe\<close>. The next line of the source,
  \<^verbatim>\<open>pos = std::max(low, std::min(pos, high))\<close>, brings whatever value it delivers into
  \<open>[low, high]\<close>, so that the loop reads \<^verbatim>\<open>m_array\<close> only inside its bounds and returns
  on every array.
\<close>

type_synonym interpolation_probe = "int \<Rightarrow> int \<Rightarrow> int \<Rightarrow> int \<Rightarrow> int \<Rightarrow> int"

function InterpolationSearch_loop ::
  "interpolation_probe \<Rightarrow> time_point \<Rightarrow> int \<Rightarrow> int \<Rightarrow> int \<Rightarrow> SearchVisualizer \<Rightarrow>
   undefined_behaviour + SearchVisualizer"
where
  "InterpolationSearch_loop probe now target low high s =
     (if low \<le> high then
        case read_at (m_array_sv s) low of
          None \<Rightarrow> Inl OutOfRangeRead
        | Some a \<Rightarrow>
            if target \<ge> a then
              case read_at (m_array_sv s) high of
                None \<Rightarrow> Inl OutOfRangeRead
              | Some b \<Rightarrow>
                  if target \<le> b then
                    if low = high then
                      let s1 = RecordStep_sv
                                 (''Single element remaining at index '' @ to_string low)
                                 low low high True s
                      in if a = target
                         then Inr (CompleteSearch now low (push_found ''Found target!'' low s1))
                         else Inr s1
                    else
                      let pos0 = probe low high target a b;
                          pos = max low (min pos0 high)
                      in case read_at (m_array_sv s) pos of
                           None \<Rightarrow> Inl OutOfRangeRead
                         | Some v \<Rightarrow>
                             let s1 = RecordStep_sv
                                        (''Interpolating position: '' @ to_string pos @
                                         '' (value: '' @ to_string v @ '')'')
                                        pos low high True s
                             in if v = target then
                                  Inr (CompleteSearch now pos
                                        (push_found ''Search completed successfully!'' pos
                                          (RecordStep_sv
                                             (''Found target '' @ to_string target @
                                              '' at index '' @ to_string pos @ ''!'')
                                             pos low high False s1)))
                                else if v < target then
                                  InterpolationSearch_loop probe now target (pos + 1) high
                                    (RecordStep_sv
                                       (''Target is greater than '' @ to_string v @
                                        '', searching right'') pos low high False s1)
                                else
                                  InterpolationSearch_loop probe now target low (pos - 1)
                                    (RecordStep_sv
                                       (''Target is less than '' @ to_string v @
                                        '', searching left'') pos low high False s1)
                  else Inr (CompleteSearch now (- 1) s)
            else Inr (CompleteSearch now (- 1) s)
      else Inr (CompleteSearch now (- 1) s))"
  by pat_completeness auto
termination
  by (relation "measure (\<lambda>(probe, now, target, low, high, s). nat (high - low + 1))") auto

definition InterpolationSearch ::
  "interpolation_probe \<Rightarrow> time_point \<Rightarrow> int \<Rightarrow> SearchVisualizer \<Rightarrow>
   undefined_behaviour + SearchVisualizer"
where
  "InterpolationSearch probe now target s =
     (let low = 0;
          high = int (length (m_array_sv s)) - 1
      in InterpolationSearch_loop probe now target low high
           (RecordStep_sv ''Starting Interpolation Search'' (- 1) low high False s))"

text \<open>
  One probe, for the runs that are evaluated below: the value of the expression in exact
  arithmetic, truncated toward zero, and \<^verbatim>\<open>INT_MIN\<close>, which the x86-64 conversion
  delivers, where the quotient is \<^verbatim>\<open>0.0 / 0\<close>. A build can differ from it where the
  quotient or the product is rounded. It is applied below to runs of Linear and Binary
  Search, which do not read it, and to one run of Interpolation Search on an array of
  equal values, where the quotient is \<^verbatim>\<open>0.0 / 0\<close> and the clamp makes the probe \<^verbatim>\<open>low\<close>.
\<close>

definition trunc_real :: "real \<Rightarrow> int" where
  \<comment> \<open>conversion of a \<^verbatim>\<open>double\<close> to \<^verbatim>\<open>int\<close>: truncation toward zero\<close>
  "trunc_real r = (if 0 \<le> r then \<lfloor>r\<rfloor> else \<lceil>r\<rceil>)"

definition exact_probe :: interpolation_probe where
  "exact_probe low high target a b =
     (if b - a = 0 then - 2147483648
      else trunc_real
             (real_of_int low +
              (real_of_int (target - a) / real_of_int (b - a)) * real_of_int (high - low)))"

subsection \<open>Exponential search\<close>

text \<open>
  The doubling loop \<^verbatim>\<open>while (bound < n && m_array[bound] < target)\<close>. \<^verbatim>\<open>bound\<close> starts
  at 1; from a \<open>bound\<close> that is not positive the doubling would not advance.
\<close>

function ExponentialSearch_bound ::
  "int \<Rightarrow> int \<Rightarrow> SearchVisualizer \<Rightarrow> undefined_behaviour + (int \<times> SearchVisualizer)"
where
  "ExponentialSearch_bound target bound s =
     (if bound < int (length (m_array_sv s)) then
        case read_at (m_array_sv s) bound of
          None \<Rightarrow> Inl OutOfRangeRead
        | Some v \<Rightarrow>
            if v < target then
              if bound \<le> 0 then Inl Diverges
              else ExponentialSearch_bound target (bound * 2)
                     (RecordStep_sv
                        (''Checking bound at index '' @ to_string bound @
                         '' (value: '' @ to_string v @ '')'') bound (- 1) (- 1) True s)
            else Inr (bound, s)
      else Inr (bound, s))"
  by pat_completeness auto
termination
  by (relation "measure (\<lambda>(target, bound, s). nat (int (length (m_array_sv s)) - bound))")
     (auto simp: RecordStep_sv_def)

function ExponentialSearch_binary ::
  "time_point \<Rightarrow> int \<Rightarrow> int \<Rightarrow> int \<Rightarrow> SearchVisualizer \<Rightarrow>
   undefined_behaviour + SearchVisualizer"
where
  "ExponentialSearch_binary now target low high s =
     (if low \<le> high then
        let mid = low + (high - low) div 2
        in case read_at (m_array_sv s) mid of
             None \<Rightarrow> Inl OutOfRangeRead
           | Some v \<Rightarrow>
               let s1 = RecordStep_sv
                          (''Binary search: checking index '' @ to_string mid @
                           '' (value: '' @ to_string v @ '')'') mid low high True s
               in if v = target then
                    Inr (CompleteSearch now mid
                          (push_found ''Search completed successfully!'' mid
                            (RecordStep_sv
                               (''Found target '' @ to_string target @ '' at index '' @
                                to_string mid @ ''!'') mid low high False s1)))
                  else if v < target then ExponentialSearch_binary now target (mid + 1) high s1
                  else ExponentialSearch_binary now target low (mid - 1) s1
      else Inr (CompleteSearch now (- 1) s))"
  by pat_completeness auto
termination
  by (relation "measure (\<lambda>(now, target, low, high, s). nat (high - low + 1))") auto

definition ExponentialSearch ::
  "time_point \<Rightarrow> int \<Rightarrow> SearchVisualizer \<Rightarrow> undefined_behaviour + SearchVisualizer"
where
  "ExponentialSearch now target s =
     (let s0 = RecordStep_sv ''Starting Exponential Search'' (- 1) (- 1) (- 1) False s
      in case read_at (m_array_sv s0) 0 of
           None \<Rightarrow> Inl OutOfRangeRead
         | Some v0 \<Rightarrow>
             if v0 = target then
               Inr (CompleteSearch now 0
                     (push_found ''Search completed successfully!'' 0
                       (RecordStep_sv ''Found target at index 0!'' 0 (- 1) (- 1) False s0)))
             else
               case ExponentialSearch_bound target 1 s0 of
                 Inl e \<Rightarrow> Inl e
               | Inr (bound, s1) \<Rightarrow>
                   let low = bound div 2;
                       high = min bound (int (length (m_array_sv s1)) - 1)
                   in ExponentialSearch_binary now target low high
                        (RecordStep_sv
                           (''Found range ['' @ to_string low @ ''..'' @ to_string high @
                            ''], starting binary search'') (- 1) low high False s1))"

subsection \<open>Jump search\<close>

function isqrt_from :: "nat \<Rightarrow> nat \<Rightarrow> nat" where
  "isqrt_from n k = (if (k + 1) * (k + 1) \<le> n then isqrt_from n (k + 1) else k)"
  by pat_completeness auto
termination
  by (relation "measure (\<lambda>(n, k). n - k)") auto

definition isqrt :: "nat \<Rightarrow> int" where
  \<comment> \<open>\<^verbatim>\<open>static_cast<int>(std::sqrt(m_array.size()))\<close>: the integer part of the square root\<close>
  "isqrt n = int (isqrt_from n 0)"

text \<open>
  The first loop of \<^verbatim>\<open>JumpSearch\<close>, \<^verbatim>\<open>while (m_array[min(step, n) - 1] < target)\<close>,
  followed by the rest of the method once the loop is left. The increment of \<^verbatim>\<open>step\<close>
  is recomputed from the size of the array at every iteration, as in the source.
\<close>

function JumpSearch_linear ::
  "time_point \<Rightarrow> int \<Rightarrow> int \<Rightarrow> int \<Rightarrow> SearchVisualizer \<Rightarrow>
   undefined_behaviour + SearchVisualizer"
where
  "JumpSearch_linear now target step prev s =
     (case read_at (m_array_sv s) prev of
        None \<Rightarrow> Inl OutOfRangeRead
      | Some v \<Rightarrow>
          if v < target then
            let s1 = RecordStep_sv
                       (''Linear search: checking index '' @ to_string prev @
                        '' (value: '' @ to_string v @ '')'') prev (- 1) (- 1) True s;
                prev' = prev + 1
            in if prev' = min step (int (length (m_array_sv s1))) then
                 Inr (CompleteSearch now (- 1)
                       (RecordStep_sv ''Target not found in array'' (- 1) (- 1) (- 1) False s1))
               else JumpSearch_linear now target step prev' s1
          else if v = target then
            Inr (CompleteSearch now prev
                  (push_found ''Search completed successfully!'' prev
                    (RecordStep_sv
                       (''Found target '' @ to_string target @ '' at index '' @
                        to_string prev @ ''!'') prev (- 1) (- 1) False s)))
          else
            Inr (CompleteSearch now (- 1)
                  (RecordStep_sv ''Target not found in array'' (- 1) (- 1) (- 1) False s)))"
  by pat_completeness auto
termination
  by (relation "measure (\<lambda>(now, target, step, prev, s).
                  nat (int (length (m_array_sv s)) - prev))")
     (auto simp: RecordStep_sv_def read_at_def split: if_splits)

function JumpSearch_jump ::
  "time_point \<Rightarrow> int \<Rightarrow> int \<Rightarrow> int \<Rightarrow> SearchVisualizer \<Rightarrow>
   undefined_behaviour + SearchVisualizer"
where
  "JumpSearch_jump now target step prev s =
     (let n = int (length (m_array_sv s));
          idx = min step n - 1
      in case read_at (m_array_sv s) idx of
           None \<Rightarrow> Inl OutOfRangeRead
         | Some v \<Rightarrow>
             if v < target then
               let s1 = RecordStep_sv
                          (''Jumping to index '' @ to_string idx @
                           '' (value: '' @ to_string v @ '')'') idx (- 1) (- 1) True s;
                   prev' = step;
                   step' = step + isqrt (length (m_array_sv s1))
               in if prev' \<ge> n then
                    Inr (CompleteSearch now (- 1)
                          (RecordStep_sv ''Target not found in array'' (- 1) (- 1) (- 1) False s1))
                  else JumpSearch_jump now target step' prev' s1
             else
               JumpSearch_linear now target step prev
                 (RecordStep_sv
                    (''Found potential block ['' @ to_string prev @ ''..'' @ to_string idx @
                     ''], linear searching'') (- 1) prev idx False s))"
  by pat_completeness auto
termination
proof (relation "measure (\<lambda>(now, target, step, prev, s).
                   nat (int (length (m_array_sv s)) - step))", goal_cases)
  case 1
  show ?case by simp
next
  case (2 now target step prev s n idx v s1 prev' step')
  have ge: "k \<le> isqrt_from m k" for m k
  proof (induction m k rule: isqrt_from.induct)
    case (1 m k)
    show ?case
    proof (cases "(k + 1) * (k + 1) \<le> m")
      case True
      with "1" have "k + 1 \<le> isqrt_from m (k + 1)" by simp
      with True show ?thesis by (subst isqrt_from.simps) simp
    next
      case False
      then show ?thesis by (subst isqrt_from.simps) simp
    qed
  qed
  from 2 have ne: "0 < length (m_array_sv s)"
    by (auto simp: read_at_def split: if_splits)
  then have "isqrt_from (length (m_array_sv s)) 0 = isqrt_from (length (m_array_sv s)) 1"
    by (subst isqrt_from.simps) (simp add: Suc_le_eq)
  moreover have "1 \<le> isqrt_from (length (m_array_sv s)) 1" by (rule ge)
  ultimately have "0 < isqrt (length (m_array_sv s))" by (simp add: isqrt_def)
  with 2 show ?case by (simp add: RecordStep_sv_def)
qed

definition JumpSearch ::
  "time_point \<Rightarrow> int \<Rightarrow> SearchVisualizer \<Rightarrow> undefined_behaviour + SearchVisualizer"
where
  "JumpSearch now target s =
     (let step = isqrt (length (m_array_sv s));
          prev = 0
      in JumpSearch_jump now target step prev
           (RecordStep_sv
              (''Starting Jump Search with step size '' @ to_string step)
              (- 1) (- 1) (- 1) False s))"

subsection \<open>Start, step, tick\<close>

text \<open>
  \<^verbatim>\<open>StartSearch\<close>: \<open>probe\<close> is the floating-point probe of Interpolation Search (read by
  no other executor), \<open>t0\<close> is the reading of the high-resolution clock on entry, \<open>t1\<close>
  the reading of the steady clock taken by \<^verbatim>\<open>CompleteSearch\<close> when the executor reports.
\<close>

definition StartSearch ::
  "interpolation_probe \<Rightarrow> time_point \<Rightarrow> time_point \<Rightarrow> SearchVisualizer \<Rightarrow>
   undefined_behaviour + SearchVisualizer"
where
  "StartSearch probe t0 t1 s =
     (let s1 = ResetSearch s;
          s2 = s1\<lparr>m_startTime := t0, m_lastStepTime := t0\<rparr>;
          r = (case m_currentAlgorithm_sv s2 of
                 SearchAlgorithm_LinearSearch \<Rightarrow> Inr (LinearSearch t1 (m_targetValue s2) s2)
               | SearchAlgorithm_BinarySearch \<Rightarrow> BinarySearch t1 (m_targetValue s2) s2
               | SearchAlgorithm_InterpolationSearch \<Rightarrow>
                   InterpolationSearch probe t1 (m_targetValue s2) s2
               | SearchAlgorithm_ExponentialSearch \<Rightarrow> ExponentialSearch t1 (m_targetValue s2) s2
               | SearchAlgorithm_JumpSearch \<Rightarrow> JumpSearch t1 (m_targetValue s2) s2)
      in case r of
           Inl e \<Rightarrow> Inl e
         | Inr s3 \<Rightarrow> Inr (if m_steps s3 \<noteq> [] then s3\<lparr>m_isRunning := True\<rparr> else s3))"

text \<open>
  The handler of the "Start Search" button in \<^verbatim>\<open>RenderControls\<close>, the only caller of
  \<^verbatim>\<open>StartSearch\<close>. \<open>ts\<close> is its reading of the steady clock, the clock that
  \<^verbatim>\<open>CompleteSearch\<close> reads again (\<open>t1\<close>); \<open>t0\<close> is the reading of the high-resolution
  clock in \<^verbatim>\<open>StartSearch\<close>, the clock of \<^verbatim>\<open>StepSearch\<close> and \<^verbatim>\<open>Update\<close>.
\<close>

definition StartSearch_clicked ::
  "interpolation_probe \<Rightarrow> time_point \<Rightarrow> time_point \<Rightarrow> time_point \<Rightarrow> SearchVisualizer \<Rightarrow>
   undefined_behaviour + SearchVisualizer"
where
  "StartSearch_clicked probe ts t0 t1 s =
     (if m_targetValue s \<noteq> - 1 then
        StartSearch probe t0 t1
          (ResetSearch (s\<lparr>m_searchStartTime := ts, m_totalComparisons_sv := 0\<rparr>))
      else Inr s)"

definition StepSearch :: "time_point \<Rightarrow> SearchVisualizer \<Rightarrow> SearchVisualizer" where
  "StepSearch now s =
     (if m_currentStep s < length (m_steps s) then
        let step = m_steps s ! m_currentStep s;
            s1 = (if isComparison step
                  then s\<lparr>m_comparisons_sv := m_comparisons_sv s + 1\<rparr> else s);
            s2 = (if isFound step
                  then s1\<lparr>m_targetFound := True, m_foundIndex := foundIndex step,
                          m_isComplete := True, m_isRunning := False, m_endTime := now,
                          m_searchTime := real_of_int (now - m_startTime s1) / 1000000\<rparr>
                  else s1);
            s3 = s2\<lparr>m_currentStep := m_currentStep s2 + 1\<rparr>
        in if m_currentStep s3 \<ge> length (m_steps s3) then
             let s4 = s3\<lparr>m_isComplete := True, m_isRunning := False\<rparr>
             in if \<not> m_targetFound s4
                then s4\<lparr>m_endTime := now,
                        m_searchTime := real_of_int (now - m_startTime s4) / 1000000\<rparr>
                else s4
           else s3
      else s)"

text \<open>
  The handler of the "Step" button, and the per-frame \<^verbatim>\<open>Update\<close>. The threshold
  \<^verbatim>\<open>1000 / m_animationSpeed\<close> is infinite for a speed of zero.
\<close>

definition Step_clicked :: "time_point \<Rightarrow> SearchVisualizer \<Rightarrow> SearchVisualizer" where
  "Step_clicked now s =
     (if \<not> m_isRunning s \<and> \<not> m_isComplete s \<and> m_steps s \<noteq> [] then StepSearch now s else s)"

definition Update_sv :: "time_point \<Rightarrow> SearchVisualizer \<Rightarrow> SearchVisualizer" where
  "Update_sv now s =
     (if m_isRunning s \<and> \<not> m_isComplete s then
        let elapsed = duration_cast_ms (now - m_lastStepTime s)
        in if m_animationSpeed_sv s \<noteq> 0 \<and>
              real_of_int elapsed \<ge> 1000 / m_animationSpeed_sv s
           then (StepSearch now s)\<lparr>m_lastStepTime := now\<rparr>
           else s
      else s)"

text \<open>The state of a freshly constructed controller on a given array (the header's defaults).\<close>

definition SearchVisualizer_init :: "SearchAlgorithm \<Rightarrow> int list \<Rightarrow> int \<Rightarrow> SearchVisualizer" where
  "SearchVisualizer_init alg xs target =
     \<lparr>m_array_sv = xs, m_steps = [], m_currentAlgorithm_sv = alg, m_targetValue = target,
      m_currentStep = 0, m_isRunning = False, m_isComplete = False, m_targetFound = False,
      m_foundIndex = - 1, m_startTime = 0, m_endTime = 0, m_searchTime = 0,
      m_comparisons_sv = 0, m_animationSpeed_sv = 1, m_lastStepTime = 0,
      m_performanceCallback_sv = True, m_searchStartTime = 0, m_totalComparisons_sv = 0,
      callbackLog_sv = []\<rparr>"

section \<open>Application: the performance history\<close>

datatype VisualizationMode = Sorting | Pathfinding | Graph | Search | Tree

record AlgorithmPerformance =
  name :: string
  executionTime :: int
  comparisons :: int
  swaps :: int
  memoryUsage :: int
  timestamp :: string

text \<open>The fields of \<^verbatim>\<open>std::tm\<close> that the timestamp prints (local wall-clock time).\<close>

record tm =
  tm_hour :: int
  tm_min :: int
  tm_sec :: int

record Application =
  m_currentVisualizer :: VisualizationMode
  m_sortingVisualizer :: "SortingVisualizer option"
  m_performanceHistory :: "AlgorithmPerformance list"

definition fmt_02d :: "int \<Rightarrow> string" where
  \<comment> \<open>\<^verbatim>\<open>{:02d}\<close>: zero-padded to two characters\<close>
  "fmt_02d i = (if 0 \<le> i \<and> i < 10 then CHR ''0'' # to_string i else to_string i)"

definition format_timestamp :: "tm \<Rightarrow> string" where
  "format_timestamp t =
     fmt_02d (tm_hour t) @ '':'' @ fmt_02d (tm_min t) @ '':'' @ fmt_02d (tm_sec t)"

text \<open>
  \<^verbatim>\<open>RecordAlgorithmPerformance\<close>; \<open>now\<close> is the local time read from the system clock
  inside the call, and \<^verbatim>\<open>sizeof(int)\<close> is 4.
\<close>

definition memory_estimate :: "Application \<Rightarrow> int" where
  "memory_estimate app =
     (case m_currentVisualizer app of
        Sorting \<Rightarrow>
          (case m_sortingVisualizer app of
             Some v \<Rightarrow>
               (let arraySize = int (length (m_array v))
                in (arraySize * 4) div 1024 + arraySize * 2)
           | None \<Rightarrow> 0)
      | Search \<Rightarrow> (1000 * 4) div 1024
      | Tree \<Rightarrow> 50
      | _ \<Rightarrow> 10)"

definition RecordAlgorithmPerformance ::
  "tm \<Rightarrow> string \<Rightarrow> int \<Rightarrow> int \<Rightarrow> int \<Rightarrow> Application \<Rightarrow> Application"
where
  "RecordAlgorithmPerformance now algorithmName time cmps swps app =
     (let perf = \<lparr>name = algorithmName, executionTime = time, comparisons = cmps,
                  swaps = swps, memoryUsage = memory_estimate app,
                  timestamp = format_timestamp now\<rparr>;
          h = m_performanceHistory app @ [perf]
      in app\<lparr>m_performanceHistory := (if length h > 50 then tl h else h)\<rparr>)"

definition ReportAlgorithmPerformance ::
  "tm \<Rightarrow> string \<Rightarrow> int \<Rightarrow> int \<Rightarrow> int \<Rightarrow> Application \<Rightarrow> Application"
where
  "ReportAlgorithmPerformance now algorithmName time cmps swps app =
     RecordAlgorithmPerformance now algorithmName time cmps swps app"

text \<open>
  The callback wired in \<^verbatim>\<open>Application::Initialize\<close> passes each invocation on to
  \<^verbatim>\<open>ReportAlgorithmPerformance\<close>; \<open>deliver\<close> does so for a sequence of invocations, each
  with the wall-clock reading taken when it arrives.
\<close>

definition deliver :: "(tm \<times> PerformanceCall) list \<Rightarrow> Application \<Rightarrow> Application" where
  "deliver calls app =
     fold (\<lambda>(now, c). ReportAlgorithmPerformance now (call_name c) (call_time c)
                         (call_comparisons c) (call_swaps c)) calls app"

text \<open>A host whose history is full: 50 records, numbered 0 to 49 by their comparisons.\<close>

definition full_history_example :: Application where
  "full_history_example =
     \<lparr>m_currentVisualizer = Search, m_sortingVisualizer = None,
      m_performanceHistory =
        map (\<lambda>i. \<lparr>name = ''Linear Search'', executionTime = 0, comparisons = int i,
                   swaps = 0, memoryUsage = 3, timestamp = ''12:00:00''\<rparr>) [0..<50]\<rparr>"

section \<open>PathfindingVisualizer\<close>

text \<open>
  Names shared with the other controllers carry the suffix \<open>_pf\<close>; the enumerators
  of \<^verbatim>\<open>GridCell::Type\<close> carry the prefix \<open>Type_\<close>. A \<^verbatim>\<open>GridCell*\<close> is the position
  (row, column) of the cell in \<^verbatim>\<open>m_grid\<close>, or \<open>None\<close> for \<^verbatim>\<open>nullptr\<close>. The four
  executors (\<^verbatim>\<open>ExecuteAStar\<close>, \<^verbatim>\<open>ExecuteDijkstra\<close>, \<^verbatim>\<open>ExecuteBFS\<close>, \<^verbatim>\<open>ExecuteDFS\<close>) are the
  parameter \<open>ex\<close> of \<^verbatim>\<open>StartPathfinding\<close>. The method is \<^verbatim>\<open>void\<close>: the model returns
  the unit value next to the new state, so that what the caller is handed back is
  part of every statement about it.

  The class has no performance callback. \<open>callbackLog_pf\<close> is the list of the
  invocations of a host callback that the controller has made; no method of the class
  makes one.
\<close>

datatype GridCell_Type =
  Type_Empty | Type_Wall | Type_Start | Type_End | Type_Path | Type_Visited | Type_Frontier

record GridCell =
  cell_x :: int
  cell_y :: int
  cell_type :: GridCell_Type
  gCost :: real
  hCost :: real
  fCost :: real
  cell_parent :: "(nat \<times> nat) option"

datatype Algorithm = AStar | Dijkstra | BreadthFirst | DepthFirst

record PathfindingVisualizer =
  m_grid :: "GridCell list list"
  m_startCell :: "(nat \<times> nat) option"
  m_endCell :: "(nat \<times> nat) option"
  m_currentAlgorithm_pf :: Algorithm
  m_state_pf :: AnimationState
  m_animationSteps :: "(nat \<times> nat) list"
  m_currentStepIndex_pf :: nat
  m_animationSpeed_pf :: real
  m_lastUpdate_pf :: time_point
  m_stepDelay_pf :: int
  m_openSet :: "(nat \<times> nat) list"
  m_closedSet :: "(nat \<times> nat) list"
  m_finalPath :: "(nat \<times> nat) list"
  m_cellsExplored :: int
  m_pathLength :: int
  m_algorithmGenerationTime_pf :: int
  m_currentSearchTime :: int
  m_searchStartTime_pf :: time_point
  m_isSearchTimingActive :: bool
  m_selectedSpeed_pf :: real
  callbackLog_pf :: "PerformanceCall list"

definition GRID_WIDTH :: nat where "GRID_WIDTH = 40"

definition GRID_HEIGHT :: nat where "GRID_HEIGHT = 25"

definition InitializeGrid :: "PathfindingVisualizer \<Rightarrow> PathfindingVisualizer" where
  "InitializeGrid s =
     (let g = map (\<lambda>r. map (\<lambda>c. \<lparr>cell_x = int c, cell_y = int r, cell_type = Type_Empty,
                                   gCost = 0, hCost = 0, fCost = 0, cell_parent = None\<rparr>)
                           [0..<GRID_WIDTH]) [0..<GRID_HEIGHT];
          sr = GRID_HEIGHT div 2;
          g1 = g[sr := (g ! sr)[5 := (g ! sr ! 5)\<lparr>cell_type := Type_Start\<rparr>]];
          ec = GRID_WIDTH - 6;
          g2 = g1[sr := (g1 ! sr)[ec := (g1 ! sr ! ec)\<lparr>cell_type := Type_End\<rparr>]]
      in s\<lparr>m_grid := g2, m_startCell := Some (sr, 5), m_endCell := Some (sr, ec)\<rparr>)"

definition PathfindingVisualizer_init :: PathfindingVisualizer where
  \<comment> \<open>the constructor: the header's defaults, then \<^verbatim>\<open>InitializeGrid\<close>\<close>
  "PathfindingVisualizer_init =
     InitializeGrid
       \<lparr>m_grid = [], m_startCell = None, m_endCell = None, m_currentAlgorithm_pf = AStar,
        m_state_pf = Stopped, m_animationSteps = [], m_currentStepIndex_pf = 0,
        m_animationSpeed_pf = 1, m_lastUpdate_pf = 0, m_stepDelay_pf = 50,
        m_openSet = [], m_closedSet = [], m_finalPath = [],
        m_cellsExplored = 0, m_pathLength = 0, m_algorithmGenerationTime_pf = 0,
        m_currentSearchTime = 0, m_searchStartTime_pf = 0, m_isSearchTimingActive = False,
        m_selectedSpeed_pf = 1, callbackLog_pf = []\<rparr>"

definition reset_cell :: "GridCell \<Rightarrow> GridCell" where
  \<comment> \<open>the body of the loop over the cells in \<^verbatim>\<open>ResetGridForSearch\<close>\<close>
  "reset_cell c =
     (let c1 = c\<lparr>gCost := 0, hCost := 0, fCost := 0, cell_parent := None\<rparr>
      in if cell_type c1 = Type_Visited \<or> cell_type c1 = Type_Frontier \<or>
            cell_type c1 = Type_Path
         then c1\<lparr>cell_type := Type_Empty\<rparr> else c1)"

definition ResetGridForSearch :: "PathfindingVisualizer \<Rightarrow> PathfindingVisualizer" where
  "ResetGridForSearch s =
     s\<lparr>m_openSet := [], m_closedSet := [], m_animationSteps := [], m_finalPath := [],
       m_cellsExplored := 0, m_pathLength := 0,
       m_grid := map (map reset_cell) (m_grid s)\<rparr>"

type_synonym pf_executors = "Algorithm \<Rightarrow> PathfindingVisualizer \<Rightarrow> PathfindingVisualizer"

definition StartPathfinding ::
  "pf_executors \<Rightarrow> time_point \<Rightarrow> time_point \<Rightarrow> PathfindingVisualizer \<Rightarrow>
   unit \<times> PathfindingVisualizer"
where
  "StartPathfinding ex t0 t1 s =
     (if m_startCell s = None \<or> m_endCell s = None then ((), s)
      else
        let s1 = ResetGridForSearch s;
            s2 = s1\<lparr>m_state_pf := Running, m_lastUpdate_pf := t0,
                    m_searchStartTime_pf := t0, m_isSearchTimingActive := True,
                    m_currentSearchTime := 0\<rparr>;
            s3 = ex (m_currentAlgorithm_pf s2) s2
        in ((), s3\<lparr>m_algorithmGenerationTime_pf := duration_cast_ms (t1 - t0),
                    m_currentStepIndex_pf := 0\<rparr>))"

subsection \<open>Playback\<close>

text \<open>
  Every pointer in \<^verbatim>\<open>m_animationSteps\<close> and \<^verbatim>\<open>m_finalPath\<close> is taken from \<^verbatim>\<open>m_grid\<close>, whose
  rows are allocated once, by the constructor: it is a position inside the grid, and a
  write through it is a write to that cell of \<^verbatim>\<open>m_grid\<close>. For a position outside the
  grid, which stands for no pointer that the code holds, \<open>retype_at\<close> leaves the grid as
  it is.
\<close>

definition retype :: "GridCell_Type \<Rightarrow> GridCell \<Rightarrow> GridCell" where
  \<comment> \<open>\<^verbatim>\<open>if (cell->type != Start && cell->type != End) cell->type = t;\<close>\<close>
  "retype t c =
     (if cell_type c \<noteq> Type_Start \<and> cell_type c \<noteq> Type_End then c\<lparr>cell_type := t\<rparr> else c)"

definition retype_at ::
  "GridCell_Type \<Rightarrow> nat \<times> nat \<Rightarrow> GridCell list list \<Rightarrow> GridCell list list"
where
  "retype_at t p g =
     (case p of (r, c) \<Rightarrow>
        if r < length g \<and> c < length (g ! r)
        then g[r := (g ! r)[c := retype t (g ! r ! c)]]
        else g)"

definition ExecuteCurrentStep_pf :: "PathfindingVisualizer \<Rightarrow> PathfindingVisualizer" where
  "ExecuteCurrentStep_pf s =
     (if m_currentStepIndex_pf s < length (m_animationSteps s) then
        let cell = m_animationSteps s ! m_currentStepIndex_pf s
        in s\<lparr>m_grid := retype_at Type_Visited cell (m_grid s)\<rparr>
      else s)"

definition StepForward_pf :: "PathfindingVisualizer \<Rightarrow> PathfindingVisualizer" where
  "StepForward_pf s =
     (if m_currentStepIndex_pf s < length (m_animationSteps s) then
        let s1 = ExecuteCurrentStep_pf s
        in s1\<lparr>m_currentStepIndex_pf := m_currentStepIndex_pf s1 + 1\<rparr>
      else if m_finalPath s \<noteq> [] then
        s\<lparr>m_grid := fold (retype_at Type_Path) (m_finalPath s) (m_grid s),
          m_state_pf := Completed\<rparr>
      else s\<lparr>m_state_pf := Completed, m_isSearchTimingActive := False\<rparr>)"

definition Update_pf :: "time_point \<Rightarrow> PathfindingVisualizer \<Rightarrow> PathfindingVisualizer" where
  "Update_pf now s =
     (if m_state_pf s = Running then
        let elapsed = duration_cast_ms (now - m_lastUpdate_pf s)
        in if elapsed \<ge> m_stepDelay_pf s
           then (StepForward_pf s)\<lparr>m_lastUpdate_pf := now\<rparr>
           else s
      else s)"

definition PausePathfinding :: "PathfindingVisualizer \<Rightarrow> PathfindingVisualizer" where
  "PausePathfinding s =
     (if m_state_pf s = Running
      then s\<lparr>m_state_pf := Paused, m_isSearchTimingActive := False\<rparr> else s)"

definition reset_cell_ResetGrid :: "GridCell \<Rightarrow> GridCell" where
  \<comment> \<open>the body of the loop over the cells in \<^verbatim>\<open>ResetGrid\<close>\<close>
  "reset_cell_ResetGrid c =
     (let c1 = (if cell_type c = Type_Visited \<or> cell_type c = Type_Frontier \<or>
                   cell_type c = Type_Path
                then c\<lparr>cell_type := Type_Empty\<rparr> else c)
      in c1\<lparr>gCost := 0, hCost := 0, fCost := 0, cell_parent := None\<rparr>)"

definition ResetGrid :: "PathfindingVisualizer \<Rightarrow> PathfindingVisualizer" where
  "ResetGrid s =
     s\<lparr>m_state_pf := Stopped, m_cellsExplored := 0, m_pathLength := 0,
       m_algorithmGenerationTime_pf := 0, m_currentSearchTime := 0,
       m_isSearchTimingActive := False, m_animationSteps := [],
       m_currentStepIndex_pf := 0, m_finalPath := [],
       m_grid := map (map reset_cell_ResetGrid) (m_grid s)\<rparr>"

text \<open>
  The handler of the "Speed" slider in \<^verbatim>\<open>RenderControls\<close>. \<open>speed\<close> is the value the
  slider has written to \<^verbatim>\<open>m_selectedSpeed\<close>; \<open>delay\<close> is the value of
  \<^verbatim>\<open>static_cast<int>(100 / m_animationSpeed)\<close>, which the code computes in \<^verbatim>\<open>float\<close>.
\<close>

definition Speed_changed_pf ::
  "real \<Rightarrow> int \<Rightarrow> PathfindingVisualizer \<Rightarrow> PathfindingVisualizer"
where
  "Speed_changed_pf speed delay s =
     s\<lparr>m_selectedSpeed_pf := speed, m_animationSpeed_pf := speed, m_stepDelay_pf := delay\<rparr>"

text \<open>
  What playback can do to a \<^verbatim>\<open>PathfindingVisualizer\<close> between two frames: the per-frame
  tick, the "Step" button (which calls \<^verbatim>\<open>StepForward\<close> in every state), the "Pause" button
  and the speed slider.
\<close>

datatype pathfinding_op =
    PfOp_Update time_point
  | PfOp_StepForward
  | PfOp_PausePathfinding
  | PfOp_Speed_changed real int

fun apply_pf_op :: "pathfinding_op \<Rightarrow> PathfindingVisualizer \<Rightarrow> PathfindingVisualizer" where
  "apply_pf_op (PfOp_Update now) s = Update_pf now s"
| "apply_pf_op PfOp_StepForward s = StepForward_pf s"
| "apply_pf_op PfOp_PausePathfinding s = PausePathfinding s"
| "apply_pf_op (PfOp_Speed_changed speed delay) s = Speed_changed_pf speed delay s"

definition run_pf_ops ::
  "pathfinding_op list \<Rightarrow> PathfindingVisualizer \<Rightarrow> PathfindingVisualizer"
where
  "run_pf_ops ops s = fold apply_pf_op ops s"

section \<open>TreeVisualizer\<close>

text \<open>
  Names shared with the other controllers carry the suffix \<open>_tv\<close>; the enumerators of
  \<^verbatim>\<open>TreeAlgorithm\<close> and \<^verbatim>\<open>TreeOperation\<close> carry the name of their type as a prefix. A
  \<^verbatim>\<open>std::shared_ptr<TreeNode>\<close> that owns a subtree is a value of the datatype \<open>TreeNode\<close>
  (\<open>Null\<close> for \<^verbatim>\<open>nullptr\<close>); the pointer that a step keeps to a node of the tree is the
  path from \<^verbatim>\<open>m_root\<close> to it (\<open>False\<close> for \<^verbatim>\<open>left\<close>, \<open>True\<close> for \<^verbatim>\<open>right\<close>). The model embeds
  the search operation, the playback and the two resets; the insertion, deletion and
  traversal operations are not embedded. \<^verbatim>\<open>m_showTraversal\<close> and \<^verbatim>\<open>m_autoBalance\<close> are
  read by the drawing code only and are not fields of the model.

  The class stores the callback that the host gives it (\<^verbatim>\<open>SetPerformanceCallback\<close>);
  \<open>callbackLog_tv\<close> is the list of its invocations. The file that defines the class
  contains no invocation of it.
\<close>

datatype TreeAlgorithm =
    TreeAlgorithm_BinarySearchTree
  | TreeAlgorithm_AVLTree
  | TreeAlgorithm_MinHeap
  | TreeAlgorithm_MaxHeap
  | TreeAlgorithm_RedBlackTree

datatype TreeOperation =
    TreeOperation_Insert
  | TreeOperation_Delete
  | TreeOperation_Search
  | TreeOperation_Traverse

datatype Color = RED | BLACK

record TreeNode_fields =
  node_value :: int
  node_height :: int
  node_color :: Color
  node_x :: real
  node_y :: real
  isHighlighted :: bool
  isNew :: bool
  isDeleted :: bool

datatype TreeNode = Null | Node TreeNode_fields TreeNode TreeNode

record TreeStep =
  step_description_tv :: string
  highlightedNode :: "bool list option"
  visitedNodes :: "bool list list"
  isRotation :: bool
  isInsertion :: bool
  isDeletion :: bool
  isComparison_tv :: bool

record TreeVisualizer =
  m_root :: TreeNode
  m_heap :: "int list"
  m_steps_tv :: "TreeStep list"
  m_currentAlgorithm_tv :: TreeAlgorithm
  m_currentOperation :: TreeOperation
  m_inputValue :: int
  m_currentStep_tv :: nat
  m_isRunning_tv :: bool
  m_isComplete_tv :: bool
  m_startTime_tv :: time_point
  m_endTime_tv :: time_point
  m_operationTime :: real
  m_nodeCount :: int
  m_treeHeight :: int
  m_comparisons_tv :: int
  m_rotations :: int
  m_animationSpeed_tv :: real
  m_lastStepTime_tv :: time_point
  m_traversalResult :: "int list"
  m_performanceCallback_tv :: bool
  m_operationStartTime :: time_point
  m_totalComparisons_tv :: int
  m_totalOperations :: int
  callbackLog_tv :: "PerformanceCall list"

definition RecordStep_tv :: "string \<Rightarrow> bool list option \<Rightarrow> TreeVisualizer \<Rightarrow> TreeVisualizer" where
  "RecordStep_tv desc highlighted s =
     s\<lparr>m_steps_tv := m_steps_tv s @
        [\<lparr>step_description_tv = desc, highlightedNode = highlighted, visitedNodes = [],
          isRotation = False, isInsertion = False, isDeletion = False,
          isComparison_tv = False\<rparr>]\<rparr>"

definition ClearTree :: "TreeVisualizer \<Rightarrow> TreeVisualizer" where
  "ClearTree s =
     s\<lparr>m_root := Null, m_heap := [], m_nodeCount := 0, m_treeHeight := 0,
       m_comparisons_tv := 0, m_rotations := 0, m_traversalResult := []\<rparr>"

definition ResetVisualization :: "TreeVisualizer \<Rightarrow> TreeVisualizer" where
  "ResetVisualization s =
     s\<lparr>m_steps_tv := [], m_currentStep_tv := 0, m_isRunning_tv := False,
       m_isComplete_tv := False, m_operationTime := 0\<rparr>"

text \<open>
  \<^verbatim>\<open>BSTSearch\<close> on the subtree reached from \<^verbatim>\<open>m_root\<close> by the path \<open>p\<close>. It returns the
  pointer it found (\<open>None\<close> for \<^verbatim>\<open>nullptr\<close>), the subtree, in which the node found is now
  highlighted, and the new state of the controller.
\<close>

fun BSTSearch ::
  "bool list \<Rightarrow> TreeNode \<Rightarrow> int \<Rightarrow> TreeVisualizer \<Rightarrow>
   bool list option \<times> TreeNode \<times> TreeVisualizer"
where
  "BSTSearch p Null v s = (None, Null, s)"
| "BSTSearch p (Node d l r) v s =
     (if node_value d = v then
        (Some p, Node (d\<lparr>isHighlighted := True\<rparr>) l r,
         RecordStep_tv (''Found value '' @ to_string v) (Some p) s)
      else
        let s1 = RecordStep_tv
                   (''Comparing '' @ to_string v @ '' with '' @ to_string (node_value d))
                   (Some p) s;
            s2 = s1\<lparr>m_comparisons_tv := m_comparisons_tv s1 + 1\<rparr>
        in if v < node_value d then
             (case BSTSearch (p @ [False]) l v
                     (RecordStep_tv
                        (to_string v @ '' < '' @ to_string (node_value d) @
                         '', searching left'') None s2) of
                (found, l', s3) \<Rightarrow> (found, Node d l' r, s3))
           else
             (case BSTSearch (p @ [True]) r v
                     (RecordStep_tv
                        (to_string v @ '' > '' @ to_string (node_value d) @
                         '', searching right'') None s2) of
                (found, r', s3) \<Rightarrow> (found, Node d l r', s3)))"

text \<open>
  \<^verbatim>\<open>SearchValue\<close>: \<open>t0\<close> and \<open>t1\<close> are the readings of the high-resolution clock on entry
  and before the return. \<open>Search_clicked\<close> is the handler of the "Search" button.
\<close>

definition SearchValue ::
  "time_point \<Rightarrow> time_point \<Rightarrow> int \<Rightarrow> TreeVisualizer \<Rightarrow> TreeVisualizer"
where
  "SearchValue t0 t1 v s =
     (let s1 = s\<lparr>m_startTime_tv := t0, m_comparisons_tv := 0\<rparr>;
          s2 = ResetVisualization s1;
          s3 = RecordStep_tv (''Searching for value '' @ to_string v) None s2
      in case BSTSearch [] (m_root s3) v s3 of
           (found, rt, s4) \<Rightarrow>
             let s5 = s4\<lparr>m_root := rt\<rparr>;
                 s6 = (if found \<noteq> None
                       then RecordStep_tv
                              (''Found value '' @ to_string v @ '' in tree!'') None s5
                       else RecordStep_tv
                              (''Value '' @ to_string v @ '' not found in tree'') None s5)
             in s6\<lparr>m_endTime_tv := t1,
                   m_operationTime := real_of_int (t1 - t0) / 1000000\<rparr>)"

definition Search_clicked :: "time_point \<Rightarrow> time_point \<Rightarrow> TreeVisualizer \<Rightarrow> TreeVisualizer" where
  "Search_clicked t0 t1 s =
     (if m_currentOperation s = TreeOperation_Search
      then SearchValue t0 t1 (m_inputValue s) s else s)"

text \<open>
  The handlers of the "Step" button, of the "Reset Animation" button
  (\<^verbatim>\<open>ResetVisualization\<close>) and of the "Speed" slider, and the per-frame \<^verbatim>\<open>Update\<close>. No method
  of the class sets \<^verbatim>\<open>m_isRunning\<close>.
\<close>

definition Step_clicked_tv :: "TreeVisualizer \<Rightarrow> TreeVisualizer" where
  "Step_clicked_tv s =
     (if m_steps_tv s \<noteq> [] \<and> m_currentStep_tv s < length (m_steps_tv s)
      then s\<lparr>m_currentStep_tv := m_currentStep_tv s + 1\<rparr> else s)"

definition Speed_changed_tv :: "real \<Rightarrow> TreeVisualizer \<Rightarrow> TreeVisualizer" where
  "Speed_changed_tv speed s = s\<lparr>m_animationSpeed_tv := speed\<rparr>"

definition Update_tv :: "time_point \<Rightarrow> TreeVisualizer \<Rightarrow> TreeVisualizer" where
  "Update_tv now s =
     (if m_isRunning_tv s \<and> \<not> m_isComplete_tv s then
        let elapsed = duration_cast_ms (now - m_lastStepTime_tv s)
        in if m_animationSpeed_tv s \<noteq> 0 \<and>
              real_of_int elapsed \<ge> 1000 / m_animationSpeed_tv s
           then
             let s1 = (if m_currentStep_tv s < length (m_steps_tv s)
                       then s\<lparr>m_currentStep_tv := m_currentStep_tv s + 1\<rparr> else s);
                 s2 = (if m_currentStep_tv s1 \<ge> length (m_steps_tv s1)
                       then s1\<lparr>m_isComplete_tv := True, m_isRunning_tv := False\<rparr> else s1)
             in s2\<lparr>m_lastStepTime_tv := now\<rparr>
           else s
      else s)"

text \<open>The state of a freshly constructed controller (the header's defaults).\<close>

definition TreeVisualizer_init :: TreeVisualizer where
  "TreeVisualizer_init =
     \<lparr>m_root = Null, m_heap = [], m_steps_tv = [],
      m_currentAlgorithm_tv = TreeAlgorithm_BinarySearchTree,
      m_currentOperation = TreeOperation_Insert, m_inputValue = 50,
      m_currentStep_tv = 0, m_isRunning_tv = False, m_isComplete_tv = False,
      m_startTime_tv = 0, m_endTime_tv = 0, m_operationTime = 0, m_nodeCount = 0,
      m_treeHeight = 0, m_comparisons_tv = 0, m_rotations = 0, m_animationSpeed_tv = 1,
      m_lastStepTime_tv = 0, m_traversalResult = [], m_performanceCallback_tv = True,
      m_operationStartTime = 0, m_totalComparisons_tv = 0, m_totalOperations = 0,
      callbackLog_tv = []\<rparr>"

datatype tree_op =
    TvOp_Update time_point
  | TvOp_Step_clicked
  | TvOp_Speed_changed real

fun apply_tv_op :: "tree_op \<Rightarrow> TreeVisualizer \<Rightarrow> TreeVisualizer" where
  "apply_tv_op (TvOp_Update now) s = Update_tv now s"
| "apply_tv_op TvOp_Step_clicked s = Step_clicked_tv s"
| "apply_tv_op (TvOp_Speed_changed speed) s = Speed_changed_tv speed s"

definition run_tv_ops :: "tree_op list \<Rightarrow> TreeVisualizer \<Rightarrow> TreeVisualizer" where
  "run_tv_ops ops s = fold apply_tv_op ops s"

section \<open>GraphVisualizer\<close>

text \<open>
  Names shared with the other controllers carry the suffix \<open>_gv\<close>. The class records no
  step log and has no playback state: \<^verbatim>\<open>ExecuteAlgorithm\<close> runs the selected algorithm to
  its end, and the body of \<^verbatim>\<open>Update\<close> is empty. \<^verbatim>\<open>ExecuteKruskalMST\<close> and
  \<^verbatim>\<open>ExecutePrimMST\<close> write nothing but the \<^verbatim>\<open>inMST\<close> flags of the nodes and edges and
  \<^verbatim>\<open>m_mstWeight\<close>; they are the parameter \<open>ex\<close> of \<^verbatim>\<open>ExecuteAlgorithm\<close>: from the nodes,
  the edges and \<^verbatim>\<open>m_mstWeight\<close>, their new values (both return on the graphs that
  \<^verbatim>\<open>GenerateRandomGraph\<close> and \<^verbatim>\<open>InitializeSampleGraph\<close> build, whose edges join nodes of
  the graph).

  The class has no performance callback. \<open>callbackLog_gv\<close> is the list of the
  invocations of a host callback that the controller has made; no method of the class
  makes one.
\<close>

record GraphNode =
  node_px :: real
  node_py :: real
  node_id :: int
  node_visited :: bool
  node_inMST :: bool
  node_label :: string

record GraphEdge =
  edge_from :: int
  edge_to :: int
  edge_weight :: real
  edge_highlighted :: bool
  edge_inMST :: bool

datatype Algorithm_gv = KruskalMST | PrimMST | TopologicalSort | StronglyConnectedComponents

record GraphVisualizer =
  m_nodes :: "GraphNode list"
  m_edges :: "GraphEdge list"
  m_currentAlgorithm_gv :: Algorithm_gv
  m_mstWeight :: int
  m_componentsCount :: int
  callbackLog_gv :: "PerformanceCall list"

type_synonym mst_executors =
  "Algorithm_gv \<Rightarrow> GraphNode list \<Rightarrow> GraphEdge list \<Rightarrow> int \<Rightarrow>
   GraphNode list \<times> GraphEdge list \<times> int"

definition Update_gv :: "GraphVisualizer \<Rightarrow> GraphVisualizer" where
  "Update_gv g = g"

definition ClearGraph :: "GraphVisualizer \<Rightarrow> GraphVisualizer" where
  \<comment> \<open>the two loops at the end of the method run over the vectors just cleared\<close>
  "ClearGraph g = g\<lparr>m_nodes := [], m_edges := [], m_mstWeight := 0, m_componentsCount := 0\<rparr>"

definition ExecuteAlgorithm :: "mst_executors \<Rightarrow> GraphVisualizer \<Rightarrow> GraphVisualizer" where
  "ExecuteAlgorithm ex g =
     (let g1 = g\<lparr>m_edges := map (\<lambda>e. e\<lparr>edge_inMST := False, edge_highlighted := False\<rparr>)
                              (m_edges g),
                 m_nodes := map (\<lambda>n. n\<lparr>node_visited := False, node_inMST := False\<rparr>)
                              (m_nodes g)\<rparr>
      in case m_currentAlgorithm_gv g1 of
           KruskalMST \<Rightarrow>
             (case ex KruskalMST (m_nodes g1) (m_edges g1) (m_mstWeight g1) of
                (ns, es, w) \<Rightarrow> g1\<lparr>m_nodes := ns, m_edges := es, m_mstWeight := w\<rparr>)
         | PrimMST \<Rightarrow>
             (case ex PrimMST (m_nodes g1) (m_edges g1) (m_mstWeight g1) of
                (ns, es, w) \<Rightarrow> g1\<lparr>m_nodes := ns, m_edges := es, m_mstWeight := w\<rparr>)
         | TopologicalSort \<Rightarrow>
             g1\<lparr>m_nodes := map (\<lambda>n. n\<lparr>node_visited := True\<rparr>) (m_nodes g1)\<rparr>
         | StronglyConnectedComponents \<Rightarrow>
             g1\<lparr>m_componentsCount := int (length (m_nodes g1)),
                m_nodes := map (\<lambda>n. n\<lparr>node_visited := True\<rparr>) (m_nodes g1)\<rparr>)"

section \<open>Sequences of operations on the sorting controller\<close>

text \<open>
  What the host can do to a \<^verbatim>\<open>SortingVisualizer\<close> between two frames: the per-frame
  tick, the buttons, the speed slider. A playback schedule is a list of them.
\<close>

datatype sorting_op =
    Op_Update time_point
  | Op_StepForward time_point
  | Op_StepBackward
  | Op_PauseSorting
  | Op_StartSorting time_point time_point
  | Op_SetAnimationSpeed real
  | Op_ResetArray

fun apply_op :: "executors \<Rightarrow> sorting_op \<Rightarrow> SortingVisualizer \<Rightarrow> SortingVisualizer" where
  "apply_op ex (Op_Update now) s = Update now s"
| "apply_op ex (Op_StepForward now) s = StepForward now s"
| "apply_op ex Op_StepBackward s = StepBackward s"
| "apply_op ex Op_PauseSorting s = PauseSorting s"
| "apply_op ex (Op_StartSorting t0 t1) s = StartSorting ex t0 t1 s"
| "apply_op ex (Op_SetAnimationSpeed speed) s = SetAnimationSpeed speed s"
| "apply_op ex Op_ResetArray s = ResetArray s"

definition run_ops :: "executors \<Rightarrow> sorting_op list \<Rightarrow> SortingVisualizer \<Rightarrow> SortingVisualizer" where
  "run_ops ex ops s = fold (apply_op ex) ops s"

definition no_executor :: executors where
  \<comment> \<open>an executor table that records nothing, for runs that select \<^verbatim>\<open>BubbleSort\<close>\<close>
  "no_executor = (\<lambda>a xs. ([], 0, 0))"

section \<open>Notions used in the statements\<close>

text \<open>
  The invocation that \<^verbatim>\<open>StepForward\<close> makes when it completes the log, and the
  invocation that \<^verbatim>\<open>CompleteSearch\<close> makes (none when no callback is set).
\<close>

definition sorting_report :: "time_point \<Rightarrow> SortingVisualizer \<Rightarrow> PerformanceCall" where
  "sorting_report now s =
     \<lparr>call_name = GetAlgorithmName (m_currentAlgorithm s),
      call_time = duration_cast_ms (now - m_sortStartTime s),
      call_comparisons = m_comparisons s,
      call_swaps = m_swaps s\<rparr>"

definition reported :: "time_point \<Rightarrow> SearchVisualizer \<Rightarrow> PerformanceCall list" where
  "reported now s =
     (if m_performanceCallback_sv s then
        [\<lparr>call_name = GetAlgorithmName_sv (m_currentAlgorithm_sv s),
          call_time = duration_cast_ms (now - m_searchStartTime s),
          call_comparisons = m_totalComparisons_sv s,
          call_swaps = 0\<rparr>]
      else [])"

text \<open>
  Forward playback: every operation but \<^verbatim>\<open>StepBackward\<close> and \<^verbatim>\<open>ResetArray\<close>. \<open>one_step\<close>
  relates a state to the state after one such operation, \<open>many_steps\<close> to the state
  after any number of them.
\<close>

definition forward_only :: "sorting_op \<Rightarrow> bool" where
  "forward_only op = (op \<noteq> Op_StepBackward \<and> op \<noteq> Op_ResetArray)"

definition one_step :: "SortingVisualizer \<Rightarrow> SortingVisualizer \<Rightarrow> bool" where
  "one_step s s' =
     (m_state s' \<noteq> Stopped \<and> m_sortingSteps s' = m_sortingSteps s \<and>
      m_performanceCallback s' = m_performanceCallback s \<and>
      (\<forall>t. sorting_report t s' = sorting_report t s) \<and>
      ((m_currentStepIndex s' = m_currentStepIndex s \<and> callbackLog s' = callbackLog s) \<or>
       (m_currentStepIndex s < length (m_sortingSteps s) \<and>
        m_currentStepIndex s' = m_currentStepIndex s + 1 \<and>
        (\<exists>now. callbackLog s' =
           callbackLog s @
           (if m_performanceCallback s \<and> m_currentStepIndex s + 1 = length (m_sortingSteps s)
            then [sorting_report now s] else [])))))"

definition many_steps :: "SortingVisualizer \<Rightarrow> SortingVisualizer \<Rightarrow> bool" where
  "many_steps s s' =
     (m_state s' \<noteq> Stopped \<and> m_sortingSteps s' = m_sortingSteps s \<and>
      m_performanceCallback s' = m_performanceCallback s \<and>
      (\<forall>t. sorting_report t s' = sorting_report t s) \<and>
      m_currentStepIndex s \<le> m_currentStepIndex s' \<and>
      (length (m_sortingSteps s) \<le> m_currentStepIndex s \<longrightarrow>
         m_currentStepIndex s' = m_currentStepIndex s) \<and>
      (m_currentStepIndex s < length (m_sortingSteps s) \<longrightarrow>
         m_currentStepIndex s' \<le> length (m_sortingSteps s)) \<and>
      (\<exists>now. callbackLog s' =
         callbackLog s @
         (if m_performanceCallback s \<and> m_currentStepIndex s < length (m_sortingSteps s) \<and>
             m_currentStepIndex s' = length (m_sortingSteps s)
          then [sorting_report now s] else [])))"

text \<open>The record that the host stores for an invocation arriving at local time \<open>now\<close>.\<close>

definition perf_record :: "Application \<Rightarrow> tm \<times> PerformanceCall \<Rightarrow> AlgorithmPerformance" where
  "perf_record app x =
     (case x of (now, c) \<Rightarrow>
        \<lparr>name = call_name c, executionTime = call_time c, comparisons = call_comparisons c,
         swaps = call_swaps c, memoryUsage = memory_estimate app,
         timestamp = format_timestamp now\<rparr>)"

section \<open>Frame lemmas for the sorting controller\<close>

lemma ExecuteCurrentStep_frame:
  "m_sortingSteps (ExecuteCurrentStep s) = m_sortingSteps s"
  "m_currentStepIndex (ExecuteCurrentStep s) = m_currentStepIndex s"
  "m_comparisons (ExecuteCurrentStep s) = m_comparisons s"
  "m_swaps (ExecuteCurrentStep s) = m_swaps s"
  "m_state (ExecuteCurrentStep s) = m_state s"
  "callbackLog (ExecuteCurrentStep s) = callbackLog s"
  "m_performanceCallback (ExecuteCurrentStep s) = m_performanceCallback s"
  by (simp_all add: ExecuteCurrentStep_def)

lemma StepForward_frame:
  "m_sortingSteps (StepForward now s) = m_sortingSteps s"
  "m_comparisons (StepForward now s) = m_comparisons s"
  "m_swaps (StepForward now s) = m_swaps s"
  by (simp_all add: StepForward_def Let_def ExecuteCurrentStep_frame)

lemma StepForward_cursor:
  "m_currentStepIndex (StepForward now s) =
     (if m_currentStepIndex s < length (m_sortingSteps s)
      then m_currentStepIndex s + 1 else m_currentStepIndex s)"
  by (auto simp add: StepForward_def Let_def ExecuteCurrentStep_frame)

lemma StepForward_state:
  "m_state (StepForward now s) =
     (if m_currentStepIndex s < length (m_sortingSteps s) \<and>
         m_currentStepIndex s + 1 = length (m_sortingSteps s)
      then Completed else m_state s)"
  by (auto simp add: StepForward_def Let_def ExecuteCurrentStep_frame)

lemma StepBackward_frame:
  "m_sortingSteps (StepBackward s) = m_sortingSteps s"
  "m_comparisons (StepBackward s) = m_comparisons s"
  "m_swaps (StepBackward s) = m_swaps s"
  "callbackLog (StepBackward s) = callbackLog s"
  by (simp_all add: StepBackward_def Let_def ExecuteCurrentStep_frame)

lemma StepBackward_cursor:
  "m_currentStepIndex (StepBackward s) = m_currentStepIndex s - 1"
  by (simp add: StepBackward_def Let_def ExecuteCurrentStep_frame)

lemma StepBackward_state:
  "m_state (StepBackward s) =
     (if 0 < m_currentStepIndex s \<and> m_state s = Completed then Paused else m_state s)"
  by (simp add: StepBackward_def Let_def ExecuteCurrentStep_frame)

lemma Update_frame:
  "m_sortingSteps (Update now s) = m_sortingSteps s"
  "m_comparisons (Update now s) = m_comparisons s"
  "m_swaps (Update now s) = m_swaps s"
  by (simp_all add: Update_def Let_def StepForward_frame)

lemma Update_cursor:
  "m_currentStepIndex (Update now s) = m_currentStepIndex s \<or>
   (m_currentStepIndex s < length (m_sortingSteps s) \<and>
    m_currentStepIndex (Update now s) = m_currentStepIndex s + 1)"
  by (simp add: Update_def Let_def StepForward_cursor)

lemma Update_not_Stopped: "m_state s \<noteq> Stopped \<Longrightarrow> m_state (Update now s) \<noteq> Stopped"
  by (simp add: Update_def Let_def StepForward_state)

lemma PauseSorting_frame:
  "m_sortingSteps (PauseSorting s) = m_sortingSteps s"
  "m_comparisons (PauseSorting s) = m_comparisons s"
  "m_swaps (PauseSorting s) = m_swaps s"
  "m_currentStepIndex (PauseSorting s) = m_currentStepIndex s"
  "callbackLog (PauseSorting s) = callbackLog s"
  by (simp_all add: PauseSorting_def)

lemma SetAnimationSpeed_frame:
  "m_sortingSteps (SetAnimationSpeed v s) = m_sortingSteps s"
  "m_comparisons (SetAnimationSpeed v s) = m_comparisons s"
  "m_swaps (SetAnimationSpeed v s) = m_swaps s"
  "m_currentStepIndex (SetAnimationSpeed v s) = m_currentStepIndex s"
  "m_state (SetAnimationSpeed v s) = m_state s"
  "callbackLog (SetAnimationSpeed v s) = callbackLog s"
  by (simp_all add: SetAnimationSpeed_def Let_def)

lemma StartSorting_resume:
  "m_state s \<noteq> Stopped \<Longrightarrow>
     m_sortingSteps (StartSorting ex t0 t1 s) = m_sortingSteps s \<and>
     m_comparisons (StartSorting ex t0 t1 s) = m_comparisons s \<and>
     m_swaps (StartSorting ex t0 t1 s) = m_swaps s \<and>
     m_currentStepIndex (StartSorting ex t0 t1 s) = m_currentStepIndex s \<and>
     callbackLog (StartSorting ex t0 t1 s) = callbackLog s"
  by (simp add: StartSorting_def Let_def)

lemma StartSorting_state: "m_state (StartSorting ex t0 t1 s) = Running"
  by (simp add: StartSorting_def Let_def)

lemma StartSorting_cursor:
  "m_currentStepIndex (StartSorting ex t0 t1 s) =
     (if m_state s = Stopped then 0 else m_currentStepIndex s)"
  by (simp add: StartSorting_def Let_def)

lemma ResetArray_cursor:
  "m_currentStepIndex (ResetArray s) = 0" "m_sortingSteps (ResetArray s) = []"
  "callbackLog (ResetArray s) = callbackLog s"
  by (simp_all add: ResetArray_def ClearSteps_def Let_def)

lemma apply_op_playback:
  assumes "m_state s \<noteq> Stopped" and "op \<noteq> Op_ResetArray"
  shows "m_state (apply_op ex op s) \<noteq> Stopped \<and>
         m_comparisons (apply_op ex op s) = m_comparisons s \<and>
         m_swaps (apply_op ex op s) = m_swaps s \<and>
         m_sortingSteps (apply_op ex op s) = m_sortingSteps s"
  using assms
  by (cases op)
     (simp_all add: Update_frame Update_not_Stopped StepForward_frame StepForward_state
        StepBackward_frame StepBackward_state PauseSorting_frame PauseSorting_def
        StartSorting_resume StartSorting_state SetAnimationSpeed_frame)

lemma run_ops_playback:
  "m_state s \<noteq> Stopped \<Longrightarrow> Op_ResetArray \<notin> set ops \<Longrightarrow>
     m_state (run_ops ex ops s) \<noteq> Stopped \<and>
     m_comparisons (run_ops ex ops s) = m_comparisons s \<and>
     m_swaps (run_ops ex ops s) = m_swaps s \<and>
     m_sortingSteps (run_ops ex ops s) = m_sortingSteps s"
proof (induction ops arbitrary: s)
  case Nil
  then show ?case by (simp add: run_ops_def)
next
  case (Cons op ops)
  from Cons.prems have a: "m_state (apply_op ex op s) \<noteq> Stopped \<and>
         m_comparisons (apply_op ex op s) = m_comparisons s \<and>
         m_swaps (apply_op ex op s) = m_swaps s \<and>
         m_sortingSteps (apply_op ex op s) = m_sortingSteps s"
    by (intro apply_op_playback) auto
  from Cons.prems have "Op_ResetArray \<notin> set ops" by simp
  with a Cons.IH[of "apply_op ex op s"] show ?case
    by (simp add: run_ops_def)
qed

lemma apply_op_cursor:
  assumes "m_currentStepIndex s \<le> length (m_sortingSteps s)"
  shows "m_currentStepIndex (apply_op ex op s) \<le> length (m_sortingSteps (apply_op ex op s))"
proof (cases op)
  case (Op_Update now)
  with assms Update_cursor[of now s] show ?thesis by (auto simp: Update_frame)
next
  case (Op_StepForward now)
  with assms show ?thesis by (simp add: StepForward_frame StepForward_cursor)
next
  case Op_StepBackward
  with assms show ?thesis by (simp add: StepBackward_frame StepBackward_cursor)
next
  case Op_PauseSorting
  with assms show ?thesis by (simp add: PauseSorting_frame)
next
  case (Op_StartSorting t0 t1)
  with assms show ?thesis
    by (cases "m_state s = Stopped") (simp_all add: StartSorting_cursor StartSorting_resume)
next
  case (Op_SetAnimationSpeed v)
  with assms show ?thesis by (simp add: SetAnimationSpeed_frame)
next
  case Op_ResetArray
  then show ?thesis by (simp add: ResetArray_cursor)
qed

lemma run_ops_cursor:
  "m_currentStepIndex s \<le> length (m_sortingSteps s) \<Longrightarrow>
   m_currentStepIndex (run_ops ex ops s) \<le> length (m_sortingSteps (run_ops ex ops s))"
proof (induction ops arbitrary: s)
  case Nil
  then show ?case by (simp add: run_ops_def)
next
  case (Cons op ops)
  from Cons.IH[OF apply_op_cursor[OF Cons.prems, of ex op]] show ?case
    by (simp add: run_ops_def)
qed

lemma ticks_monotone:
  "m_currentStepIndex s \<le> m_currentStepIndex (fold Update nows s)"
proof (induction nows arbitrary: s)
  case Nil
  show ?case by simp
next
  case (Cons now nows)
  have "m_currentStepIndex s \<le> m_currentStepIndex (Update now s)"
    using Update_cursor[of now s] by auto
  also have "\<dots> \<le> m_currentStepIndex (fold Update nows (Update now s))" by (rule Cons.IH)
  finally show ?case by simp
qed

declare BubbleSort_inner.simps [simp del] BubbleSort_outer.simps [simp del]

lemma RecordStep_callbackLog [simp]: "callbackLog (RecordStep a c1 c2 p w d s) = callbackLog s"
  by (simp add: RecordStep_def)

lemma BubbleSort_inner_callbackLog:
  "callbackLog (snd (BubbleSort_inner n i j arr s)) = callbackLog s"
proof (induction n i j arr s rule: BubbleSort_inner.induct)
  case (1 n i j arr s)
  show ?case
  proof (cases "j < n - i - 1")
    case False
    then show ?thesis by (subst BubbleSort_inner.simps) simp
  next
    case True
    show ?thesis
    proof (cases "arr ! nat j > arr ! nat (j + 1)")
      case gt: True
      from "1.IH"(1)[OF True refl refl gt refl refl refl] True gt show ?thesis
        by (subst BubbleSort_inner.simps) (simp add: Let_def)
    next
      case ngt: False
      from "1.IH"(2)[OF True refl refl ngt] True ngt show ?thesis
        by (subst BubbleSort_inner.simps) (simp add: Let_def)
    qed
  qed
qed

lemma BubbleSort_outer_callbackLog:
  "callbackLog (snd (BubbleSort_outer n i arr s)) = callbackLog s"
proof (induction n i arr s rule: BubbleSort_outer.induct)
  case (1 n i arr s)
  show ?case
  proof (cases "i < n - 1")
    case False
    then show ?thesis by (subst BubbleSort_outer.simps) simp
  next
    case True
    obtain arr' s' where r: "BubbleSort_inner n i 0 arr s = (arr', s')"
      by (cases "BubbleSort_inner n i 0 arr s")
    have "callbackLog s' = callbackLog s"
      using BubbleSort_inner_callbackLog[of n i 0 arr s] r by simp
    with "1.IH"[OF True r[symmetric]] True r show ?thesis
      by (subst BubbleSort_outer.simps) simp
  qed
qed

lemma BubbleSort_callbackLog: "callbackLog (BubbleSort s) = callbackLog s"
proof -
  obtain arr' s' where r: "BubbleSort_outer (int (length (m_array s))) 0 (m_array s) s = (arr', s')"
    by (cases "BubbleSort_outer (int (length (m_array s))) 0 (m_array s) s")
  with BubbleSort_outer_callbackLog[of "int (length (m_array s))" 0 "m_array s" s]
  show ?thesis by (simp add: BubbleSort_def Let_def)
qed

lemma run_executor_callbackLog: "callbackLog (run_executor ex s) = callbackLog s"
  by (cases "m_currentAlgorithm s")
     (simp_all add: run_executor_def BubbleSort_callbackLog split: prod.splits)

lemma StartSorting_callbackLog: "callbackLog (StartSorting ex t0 t1 s) = callbackLog s"
  by (simp add: StartSorting_def Let_def run_executor_callbackLog ClearSteps_def)

lemma StepForward_callbackLog:
  "callbackLog (StepForward now s) =
     callbackLog s @
     (if m_performanceCallback s \<and> m_currentStepIndex s < length (m_sortingSteps s) \<and>
         m_currentStepIndex s + 1 = length (m_sortingSteps s)
      then [sorting_report now s] else [])"
  by (auto simp add: StepForward_def Let_def ExecuteCurrentStep_def sorting_report_def)

lemma StartSorting_resume_report:
  "m_state s \<noteq> Stopped \<Longrightarrow>
     sorting_report t (StartSorting ex t0 t1 s) = sorting_report t s \<and>
     m_performanceCallback (StartSorting ex t0 t1 s) = m_performanceCallback s \<and>
     m_sortingSteps (StartSorting ex t0 t1 s) = m_sortingSteps s \<and>
     m_currentStepIndex (StartSorting ex t0 t1 s) = m_currentStepIndex s \<and>
     m_state (StartSorting ex t0 t1 s) = Running"
  by (simp add: StartSorting_def Let_def sorting_report_def)

lemma Update_forward:
  "m_sortingSteps (Update now s) = m_sortingSteps s \<and>
   m_performanceCallback (Update now s) = m_performanceCallback s \<and>
   sorting_report t (Update now s) = sorting_report t s \<and>
   (m_state s \<noteq> Stopped \<longrightarrow> m_state (Update now s) \<noteq> Stopped) \<and>
   ((m_currentStepIndex (Update now s) = m_currentStepIndex s \<and>
     callbackLog (Update now s) = callbackLog s) \<or>
    (m_currentStepIndex s < length (m_sortingSteps s) \<and>
     m_currentStepIndex (Update now s) = m_currentStepIndex s + 1 \<and>
     callbackLog (Update now s) =
       callbackLog s @
       (if m_performanceCallback s \<and> m_currentStepIndex s + 1 = length (m_sortingSteps s)
        then [sorting_report now s] else [])))"
  by (auto simp add: Update_def Let_def StepForward_def ExecuteCurrentStep_def
        sorting_report_def)

lemma StepForward_forward:
  "m_sortingSteps (StepForward now s) = m_sortingSteps s \<and>
   m_performanceCallback (StepForward now s) = m_performanceCallback s \<and>
   sorting_report t (StepForward now s) = sorting_report t s \<and>
   (m_state s \<noteq> Stopped \<longrightarrow> m_state (StepForward now s) \<noteq> Stopped) \<and>
   ((m_currentStepIndex (StepForward now s) = m_currentStepIndex s \<and>
     callbackLog (StepForward now s) = callbackLog s) \<or>
    (m_currentStepIndex s < length (m_sortingSteps s) \<and>
     m_currentStepIndex (StepForward now s) = m_currentStepIndex s + 1 \<and>
     callbackLog (StepForward now s) =
       callbackLog s @
       (if m_performanceCallback s \<and> m_currentStepIndex s + 1 = length (m_sortingSteps s)
        then [sorting_report now s] else [])))"
  by (auto simp add: StepForward_def Let_def ExecuteCurrentStep_def sorting_report_def)

lemma Update_one_step: "m_state s \<noteq> Stopped \<Longrightarrow> one_step s (Update now s)"
proof -
  assume ns: "m_state s \<noteq> Stopped"
  note U = Update_forward[of now s]
  from U have
    "(m_currentStepIndex (Update now s) = m_currentStepIndex s \<and>
      callbackLog (Update now s) = callbackLog s) \<or>
     (m_currentStepIndex s < length (m_sortingSteps s) \<and>
      m_currentStepIndex (Update now s) = m_currentStepIndex s + 1 \<and>
      (\<exists>t. callbackLog (Update now s) =
         callbackLog s @
         (if m_performanceCallback s \<and> m_currentStepIndex s + 1 = length (m_sortingSteps s)
          then [sorting_report t s] else [])))"
    by blast
  with ns show ?thesis
    unfolding one_step_def by (simp add: Update_forward)
qed

lemma StepForward_one_step: "m_state s \<noteq> Stopped \<Longrightarrow> one_step s (StepForward now s)"
proof -
  assume ns: "m_state s \<noteq> Stopped"
  note U = StepForward_forward[of now s]
  from U have
    "(m_currentStepIndex (StepForward now s) = m_currentStepIndex s \<and>
      callbackLog (StepForward now s) = callbackLog s) \<or>
     (m_currentStepIndex s < length (m_sortingSteps s) \<and>
      m_currentStepIndex (StepForward now s) = m_currentStepIndex s + 1 \<and>
      (\<exists>t. callbackLog (StepForward now s) =
         callbackLog s @
         (if m_performanceCallback s \<and> m_currentStepIndex s + 1 = length (m_sortingSteps s)
          then [sorting_report t s] else [])))"
    by blast
  with ns show ?thesis
    unfolding one_step_def by (simp add: StepForward_forward)
qed

lemma apply_op_one_step:
  assumes "m_state s \<noteq> Stopped" and "forward_only op"
  shows "one_step s (apply_op ex op s)"
proof (cases op)
  case (Op_Update now)
  with assms show ?thesis by (simp add: Update_one_step)
next
  case (Op_StepForward now)
  with assms show ?thesis by (simp add: StepForward_one_step)
next
  case Op_StepBackward
  with assms show ?thesis by (simp add: forward_only_def)
next
  case Op_PauseSorting
  with assms show ?thesis
    by (simp add: one_step_def PauseSorting_def sorting_report_def)
next
  case (Op_StartSorting t0 t1)
  with assms StartSorting_resume_report[of s _ ex t0 t1] show ?thesis
    by (simp add: one_step_def StartSorting_callbackLog)
next
  case (Op_SetAnimationSpeed v)
  with assms show ?thesis
    by (simp add: one_step_def SetAnimationSpeed_def Let_def sorting_report_def)
next
  case Op_ResetArray
  with assms show ?thesis by (simp add: forward_only_def)
qed

lemma many_steps_refl: "m_state s \<noteq> Stopped \<Longrightarrow> many_steps s s"
  by (simp add: many_steps_def)

lemma one_many:
  assumes A: "one_step s s1" and B: "many_steps s1 s2"
  shows "many_steps s s2"
proof -
  from A have st: "m_sortingSteps s1 = m_sortingSteps s"
    and cb: "m_performanceCallback s1 = m_performanceCallback s"
    and rp: "\<And>t. sorting_report t s1 = sorting_report t s"
    by (simp_all add: one_step_def)
  from B have ns2: "m_state s2 \<noteq> Stopped"
    and st2: "m_sortingSteps s2 = m_sortingSteps s"
    and cb2: "m_performanceCallback s2 = m_performanceCallback s"
    and rp2: "\<And>t. sorting_report t s2 = sorting_report t s"
    and mono: "m_currentStepIndex s1 \<le> m_currentStepIndex s2"
    and stay: "length (m_sortingSteps s) \<le> m_currentStepIndex s1 \<Longrightarrow>
                 m_currentStepIndex s2 = m_currentStepIndex s1"
    and bound: "m_currentStepIndex s1 < length (m_sortingSteps s) \<Longrightarrow>
                 m_currentStepIndex s2 \<le> length (m_sortingSteps s)"
    by (simp_all add: many_steps_def st cb rp)
  from B obtain t2 where "callbackLog s2 =
         callbackLog s1 @
         (if m_performanceCallback s1 \<and> m_currentStepIndex s1 < length (m_sortingSteps s1) \<and>
             m_currentStepIndex s2 = length (m_sortingSteps s1)
          then [sorting_report t2 s1] else [])"
    unfolding many_steps_def by blast
  then have log2: "callbackLog s2 =
         callbackLog s1 @
         (if m_performanceCallback s \<and> m_currentStepIndex s1 < length (m_sortingSteps s) \<and>
             m_currentStepIndex s2 = length (m_sortingSteps s)
          then [sorting_report t2 s] else [])"
    by (simp add: st cb rp)
  from A consider
      (same) "m_currentStepIndex s1 = m_currentStepIndex s" "callbackLog s1 = callbackLog s"
    | (moved) t1 where "m_currentStepIndex s < length (m_sortingSteps s)"
        "m_currentStepIndex s1 = m_currentStepIndex s + 1"
        "callbackLog s1 =
           callbackLog s @
           (if m_performanceCallback s \<and> m_currentStepIndex s + 1 = length (m_sortingSteps s)
            then [sorting_report t1 s] else [])"
    by (auto simp add: one_step_def)
  then show ?thesis
  proof cases
    case same
    with ns2 st2 cb2 rp2 mono stay bound log2 show ?thesis
      unfolding many_steps_def by (intro conjI) (simp_all, blast)
  next
    case moved
    show ?thesis
    proof (cases "m_currentStepIndex s + 1 = length (m_sortingSteps s)")
      case True
      with moved stay have c2: "m_currentStepIndex s2 = length (m_sortingSteps s)" by simp
      with True moved log2 have "callbackLog s2 =
         callbackLog s @
         (if m_performanceCallback s \<and> m_currentStepIndex s < length (m_sortingSteps s) \<and>
             m_currentStepIndex s2 = length (m_sortingSteps s)
          then [sorting_report t1 s] else [])"
        by simp
      then have "\<exists>now. callbackLog s2 =
         callbackLog s @
         (if m_performanceCallback s \<and> m_currentStepIndex s < length (m_sortingSteps s) \<and>
             m_currentStepIndex s2 = length (m_sortingSteps s)
          then [sorting_report now s] else [])" by blast
      with ns2 st2 cb2 rp2 moved c2 show ?thesis
        unfolding many_steps_def by simp
    next
      case False
      with moved have lt: "m_currentStepIndex s1 < length (m_sortingSteps s)" by simp
      with False moved log2 have "callbackLog s2 =
         callbackLog s @
         (if m_performanceCallback s \<and> m_currentStepIndex s < length (m_sortingSteps s) \<and>
             m_currentStepIndex s2 = length (m_sortingSteps s)
          then [sorting_report t2 s] else [])"
        by simp
      then have "\<exists>now. callbackLog s2 =
         callbackLog s @
         (if m_performanceCallback s \<and> m_currentStepIndex s < length (m_sortingSteps s) \<and>
             m_currentStepIndex s2 = length (m_sortingSteps s)
          then [sorting_report now s] else [])" by blast
      with ns2 st2 cb2 rp2 moved mono bound[OF lt] show ?thesis
        unfolding many_steps_def by simp
    qed
  qed
qed

lemma run_ops_many_steps:
  "m_state s \<noteq> Stopped \<Longrightarrow> list_all forward_only ops \<Longrightarrow> many_steps s (run_ops ex ops s)"
proof (induction ops arbitrary: s)
  case Nil
  then show ?case by (simp add: run_ops_def many_steps_refl)
next
  case (Cons op ops)
  from Cons.prems have o: "one_step s (apply_op ex op s)"
    by (intro apply_op_one_step) simp_all
  then have "m_state (apply_op ex op s) \<noteq> Stopped" by (simp add: one_step_def)
  with Cons.IH[of "apply_op ex op s"] Cons.prems
  have "many_steps (apply_op ex op s) (run_ops ex ops (apply_op ex op s))" by simp
  with o show ?case by (simp add: run_ops_def one_many)
qed

section \<open>Frame lemmas for the search controller\<close>

lemma StepSearch_frame:
  "m_steps (StepSearch now v) = m_steps v"
  "m_totalComparisons_sv (StepSearch now v) = m_totalComparisons_sv v"
  "callbackLog_sv (StepSearch now v) = callbackLog_sv v"
  by (simp_all add: StepSearch_def Let_def)

lemma StepSearch_comparisons:
  "m_comparisons_sv (StepSearch now v) =
     m_comparisons_sv v +
     (if m_currentStep v < length (m_steps v) \<and> isComparison (m_steps v ! m_currentStep v)
      then 1 else 0)"
  by (simp add: StepSearch_def Let_def)

lemma Update_sv_frame:
  "m_steps (Update_sv now v) = m_steps v"
  "m_totalComparisons_sv (Update_sv now v) = m_totalComparisons_sv v"
  "callbackLog_sv (Update_sv now v) = callbackLog_sv v"
  by (simp_all add: Update_sv_def Let_def StepSearch_frame)

lemma Step_clicked_frame:
  "m_steps (Step_clicked now v) = m_steps v"
  "m_totalComparisons_sv (Step_clicked now v) = m_totalComparisons_sv v"
  "callbackLog_sv (Step_clicked now v) = callbackLog_sv v"
  by (simp_all add: Step_clicked_def StepSearch_frame)

lemma ResetSearch_frame:
  "callbackLog_sv (ResetSearch v) = callbackLog_sv v"
  "m_totalComparisons_sv (ResetSearch v) = m_totalComparisons_sv v"
  by (simp_all add: ResetSearch_def)

lemma fold_Update_sv_frame:
  "m_steps (fold Update_sv nows v) = m_steps v \<and>
   m_totalComparisons_sv (fold Update_sv nows v) = m_totalComparisons_sv v \<and>
   callbackLog_sv (fold Update_sv nows v) = callbackLog_sv v"
  by (induction nows arbitrary: v) (simp_all add: Update_sv_frame)

lemma RecordStep_sv_frame [simp]:
  "callbackLog_sv (RecordStep_sv d c l h b s) = callbackLog_sv s"
  "m_totalComparisons_sv (RecordStep_sv d c l h b s) = m_totalComparisons_sv s"
  "m_array_sv (RecordStep_sv d c l h b s) = m_array_sv s"
  "reported now (RecordStep_sv d c l h b s) = reported now s"
  by (simp_all add: RecordStep_sv_def reported_def)

lemma push_found_frame [simp]:
  "callbackLog_sv (push_found d i s) = callbackLog_sv s"
  "m_totalComparisons_sv (push_found d i s) = m_totalComparisons_sv s"
  "m_array_sv (push_found d i s) = m_array_sv s"
  "reported now (push_found d i s) = reported now s"
  by (simp_all add: push_found_def reported_def)

lemma CompleteSearch_report [simp]:
  "callbackLog_sv (CompleteSearch now i s) = callbackLog_sv s @ reported now s"
  "m_totalComparisons_sv (CompleteSearch now i s) = m_totalComparisons_sv s"
  by (simp_all add: CompleteSearch_def reported_def)

declare BinarySearch_loop.simps [simp del] InterpolationSearch_loop.simps [simp del]
  ExponentialSearch_bound.simps [simp del] ExponentialSearch_binary.simps [simp del]
  JumpSearch_linear.simps [simp del] JumpSearch_jump.simps [simp del]
  LinearSearch_loop.simps [simp del]

lemma BinarySearch_loop_report:
  "BinarySearch_loop now target low high s = Inr s' \<Longrightarrow>
     callbackLog_sv s' = callbackLog_sv s @ reported now s \<and>
     m_totalComparisons_sv s' = m_totalComparisons_sv s"
proof (induction now target low high s rule: BinarySearch_loop.induct)
  case (1 now target low high s)
  from "1.prems" "1.IH" show ?case
    by (subst (asm) BinarySearch_loop.simps)
       (auto simp: Let_def split: if_splits option.splits)
qed


lemma InterpolationSearch_loop_report:
  "InterpolationSearch_loop probe now target low high s = Inr s' \<Longrightarrow>
     callbackLog_sv s' = callbackLog_sv s @ reported now s \<and>
     m_totalComparisons_sv s' = m_totalComparisons_sv s"
proof (induction probe now target low high s rule: InterpolationSearch_loop.induct)
  case (1 probe now target low high s)
  show ?case
  proof (cases "low \<le> high")
    case False
    with "1.prems" show ?thesis by (subst (asm) InterpolationSearch_loop.simps) auto
  next
    case lh: True
    show ?thesis
    proof (cases "read_at (m_array_sv s) low")
      case None
      with lh "1.prems" show ?thesis by (subst (asm) InterpolationSearch_loop.simps) auto
    next
      case (Some a)
      note ra = Some
      show ?thesis
      proof (cases "target \<ge> a")
        case False
        with lh ra "1.prems" show ?thesis by (subst (asm) InterpolationSearch_loop.simps) auto
      next
        case ta: True
        show ?thesis
        proof (cases "read_at (m_array_sv s) high")
          case None
          with lh ra ta "1.prems" show ?thesis
            by (subst (asm) InterpolationSearch_loop.simps) auto
        next
          case (Some b)
          note rb = Some
          show ?thesis
          proof (cases "target \<le> b")
            case False
            with lh ra ta rb "1.prems" show ?thesis
              by (subst (asm) InterpolationSearch_loop.simps) auto
          next
            case tb: True
            show ?thesis
            proof (cases "low = high")
              case True
              with ra rb have "a = b" by simp
              with ta tb have "a = target" by simp
              with True lh ra ta rb tb "1.prems" show ?thesis
                by (subst (asm) InterpolationSearch_loop.simps) (auto simp: Let_def)
            next
              case ne: False
              define pos0 where "pos0 = probe low high target a b"
              define pos where "pos = max low (min pos0 high)"
              show ?thesis
              proof (cases "read_at (m_array_sv s) pos")
                case None
                with ne lh ra ta rb tb "1.prems" show ?thesis
                  by (subst (asm) InterpolationSearch_loop.simps)
                     (simp add: Let_def pos_def pos0_def)
              next
                case (Some v)
                note rv = Some
                define s1 where "s1 = RecordStep_sv
                                      (''Interpolating position: '' @ to_string pos @
                                       '' (value: '' @ to_string v @ '')'')
                                      pos low high True s"
                consider (eq) "v = target" | (lt) "v \<noteq> target" "v < target"
                  | (gt) "v \<noteq> target" "\<not> v < target" by blast
                then show ?thesis
                proof cases
                  case eq
                  with rv ne lh ra ta rb tb "1.prems" show ?thesis
                    by (subst (asm) InterpolationSearch_loop.simps)
                       (auto simp: Let_def pos_def pos0_def)
                next
                  case lt
                  from lt rv ne lh ra ta rb tb "1.prems"
                  have "InterpolationSearch_loop probe now target (pos + 1) high
                          (RecordStep_sv
                             (''Target is greater than '' @ to_string v @
                              '', searching right'') pos low high False s1) = Inr s'"
                    by (subst (asm) InterpolationSearch_loop.simps)
                       (simp add: Let_def pos_def pos0_def s1_def)
                  from "1.IH"(1)[OF lh ra ta rb tb ne pos0_def pos_def rv s1_def lt this]
                  show ?thesis by (simp add: s1_def)
                next
                  case gt
                  from gt rv ne lh ra ta rb tb "1.prems"
                  have "InterpolationSearch_loop probe now target low (pos - 1)
                          (RecordStep_sv
                             (''Target is less than '' @ to_string v @
                              '', searching left'') pos low high False s1) = Inr s'"
                    by (subst (asm) InterpolationSearch_loop.simps)
                       (simp add: Let_def pos_def pos0_def s1_def)
                  from "1.IH"(2)[OF lh ra ta rb tb ne pos0_def pos_def rv s1_def gt this]
                  show ?thesis by (simp add: s1_def)
                qed
              qed
            qed
          qed
        qed
      qed
    qed
  qed
qed

lemma ExponentialSearch_bound_frame:
  "ExponentialSearch_bound target bound s = Inr (b, s') \<Longrightarrow>
     callbackLog_sv s' = callbackLog_sv s \<and> reported now s' = reported now s \<and>
     m_totalComparisons_sv s' = m_totalComparisons_sv s \<and> m_array_sv s' = m_array_sv s"
proof (induction target bound s rule: ExponentialSearch_bound.induct)
  case (1 target bound s)
  show ?case
  proof (cases "bound < int (length (m_array_sv s))")
    case False
    with "1.prems" show ?thesis by (subst (asm) ExponentialSearch_bound.simps) auto
  next
    case lt: True
    show ?thesis
    proof (cases "read_at (m_array_sv s) bound")
      case None
      with lt "1.prems" show ?thesis by (subst (asm) ExponentialSearch_bound.simps) auto
    next
      case (Some v)
      show ?thesis
      proof (cases "v < target")
        case False
        with Some lt "1.prems" show ?thesis
          by (subst (asm) ExponentialSearch_bound.simps) auto
      next
        case vt: True
        show ?thesis
        proof (cases "bound \<le> 0")
          case True
          with vt Some lt "1.prems" show ?thesis
            by (subst (asm) ExponentialSearch_bound.simps) auto
        next
          case False
          with vt Some lt "1.prems"
          have "ExponentialSearch_bound target (bound * 2)
                     (RecordStep_sv
                        (''Checking bound at index '' @ to_string bound @
                         '' (value: '' @ to_string v @ '')'') bound (- 1) (- 1) True s)
                  = Inr (b, s')"
            by (subst (asm) ExponentialSearch_bound.simps) simp
          from "1.IH"[OF lt Some vt False this] show ?thesis by simp
        qed
      qed
    qed
  qed
qed

lemma ExponentialSearch_binary_report:
  "ExponentialSearch_binary now target low high s = Inr s' \<Longrightarrow>
     callbackLog_sv s' = callbackLog_sv s @ reported now s \<and>
     m_totalComparisons_sv s' = m_totalComparisons_sv s"
proof (induction now target low high s rule: ExponentialSearch_binary.induct)
  case (1 now target low high s)
  from "1.prems" "1.IH" show ?case
    by (subst (asm) ExponentialSearch_binary.simps)
       (auto simp: Let_def split: if_splits option.splits)
qed

lemma JumpSearch_linear_report:
  "JumpSearch_linear now target step prev s = Inr s' \<Longrightarrow>
     callbackLog_sv s' = callbackLog_sv s @ reported now s \<and>
     m_totalComparisons_sv s' = m_totalComparisons_sv s"
proof (induction now target step prev s rule: JumpSearch_linear.induct)
  case (1 now target step prev s)
  show ?case
  proof (cases "read_at (m_array_sv s) prev")
    case None
    with "1.prems" show ?thesis by (subst (asm) JumpSearch_linear.simps) auto
  next
    case (Some v)
    show ?thesis
    proof (cases "v < target")
      case False
      with Some "1.prems" show ?thesis
        by (subst (asm) JumpSearch_linear.simps) (auto split: if_splits)
    next
      case vt: True
      define s1 where "s1 = RecordStep_sv
                       (''Linear search: checking index '' @ to_string prev @
                        '' (value: '' @ to_string v @ '')'') prev (- 1) (- 1) True s"
      show ?thesis
      proof (cases "prev + 1 = min step (int (length (m_array_sv s1)))")
        case True
        with vt Some "1.prems" show ?thesis
          by (subst (asm) JumpSearch_linear.simps) (auto simp: Let_def s1_def)
      next
        case False
        with vt Some "1.prems"
        have "JumpSearch_linear now target step (prev + 1) s1 = Inr s'"
          by (subst (asm) JumpSearch_linear.simps) (simp add: Let_def s1_def)
        from "1.IH"[OF Some vt s1_def refl False this] show ?thesis by (simp add: s1_def)
      qed
    qed
  qed
qed

lemma JumpSearch_jump_report:
  "JumpSearch_jump now target step prev s = Inr s' \<Longrightarrow>
     callbackLog_sv s' = callbackLog_sv s @ reported now s \<and>
     m_totalComparisons_sv s' = m_totalComparisons_sv s"
proof (induction now target step prev s rule: JumpSearch_jump.induct)
  case (1 now target step prev s)
  define n where "n = int (length (m_array_sv s))"
  define idx where "idx = min step n - 1"
  show ?case
  proof (cases "read_at (m_array_sv s) idx")
    case None
    with "1.prems" show ?thesis
      by (subst (asm) JumpSearch_jump.simps) (simp add: Let_def n_def idx_def)
  next
    case (Some v)
    show ?thesis
    proof (cases "v < target")
      case False
      with Some "1.prems"
      have "JumpSearch_linear now target step prev
                 (RecordStep_sv
                    (''Found potential block ['' @ to_string prev @ ''..'' @ to_string idx @
                     ''], linear searching'') (- 1) prev idx False s) = Inr s'"
        by (subst (asm) JumpSearch_jump.simps) (simp add: Let_def n_def idx_def)
      from JumpSearch_linear_report[OF this] show ?thesis by simp
    next
      case vt: True
      define s1 where "s1 = RecordStep_sv
                          (''Jumping to index '' @ to_string idx @
                           '' (value: '' @ to_string v @ '')'') idx (- 1) (- 1) True s"
      define step' where "step' = step + isqrt (length (m_array_sv s1))"
      show ?thesis
      proof (cases "step \<ge> n")
        case True
        with vt Some "1.prems" show ?thesis
          by (subst (asm) JumpSearch_jump.simps) (auto simp: Let_def n_def idx_def)
      next
        case False
        with vt Some "1.prems"
        have "JumpSearch_jump now target step' step s1 = Inr s'"
          by (subst (asm) JumpSearch_jump.simps)
             (simp add: Let_def n_def idx_def s1_def step'_def)
        from "1.IH"[OF n_def idx_def Some vt s1_def refl step'_def False this]
        show ?thesis by (simp add: s1_def)
      qed
    qed
  qed
qed

lemma LinearSearch_loop_report:
  "\<exists>k. callbackLog_sv (LinearSearch_loop now target i s) =
         callbackLog_sv s @ reported now (s\<lparr>m_totalComparisons_sv := k\<rparr>)"
proof (induction now target i s rule: LinearSearch_loop.induct)
  case (1 now target i s)
  show ?case
  proof (cases "i < length (m_array_sv s)")
    case False
    have "reported now (s\<lparr>m_totalComparisons_sv := m_totalComparisons_sv s\<rparr>) = reported now s"
      by (simp add: reported_def)
    with False show ?thesis
      by (subst LinearSearch_loop.simps) (auto simp: CompleteSearch_def reported_def)
  next
    case True
    define step where "step = SearchStep_default
                     \<lparr>step_description := ''Checking element at index '' @ to_string (int i) @
                          '': '' @ to_string (m_array_sv s ! i),
                      currentIndex := int i, isComparison := True\<rparr>"
    define s1 where "s1 = s\<lparr>m_steps := m_steps s @ [step]\<rparr>"
    define s2 where "s2 = s1\<lparr>m_totalComparisons_sv := m_totalComparisons_sv s1 + 1\<rparr>"
    show ?thesis
    proof (cases "m_array_sv s2 ! i = target")
      case found: True
      with True show ?thesis
        by (subst LinearSearch_loop.simps)
           (auto simp: Let_def CompleteSearch_def reported_def s2_def s1_def step_def)
    next
      case nf: False
      from "1.IH"[OF True step_def s1_def s2_def nf]
      obtain k where "callbackLog_sv (LinearSearch_loop now target (i + 1) s2) =
         callbackLog_sv s2 @ reported now (s2\<lparr>m_totalComparisons_sv := k\<rparr>)" by blast
      moreover have "reported now (s2\<lparr>m_totalComparisons_sv := k\<rparr>) =
                     reported now (s\<lparr>m_totalComparisons_sv := k\<rparr>)"
        by (simp add: reported_def s2_def s1_def)
      moreover have "callbackLog_sv s2 = callbackLog_sv s" by (simp add: s2_def s1_def)
      moreover have "LinearSearch_loop now target i s = LinearSearch_loop now target (i + 1) s2"
        using True nf
        by (subst LinearSearch_loop.simps) (simp add: Let_def s2_def s1_def step_def)
      ultimately show ?thesis by auto
    qed
  qed
qed

lemma ExponentialSearch_report:
  "ExponentialSearch now target s = Inr s' \<Longrightarrow>
     callbackLog_sv s' = callbackLog_sv s @ reported now s \<and>
     m_totalComparisons_sv s' = m_totalComparisons_sv s"
proof -
  assume r: "ExponentialSearch now target s = Inr s'"
  define s0 where "s0 = RecordStep_sv ''Starting Exponential Search'' (- 1) (- 1) (- 1) False s"
  show ?thesis
  proof (cases "read_at (m_array_sv s0) 0")
    case None
    with r show ?thesis by (simp add: ExponentialSearch_def Let_def s0_def)
  next
    case (Some v0)
    show ?thesis
    proof (cases "v0 = target")
      case True
      with Some r show ?thesis by (auto simp add: ExponentialSearch_def Let_def s0_def)
    next
      case False
      show ?thesis
      proof (cases "ExponentialSearch_bound target 1 s0")
        case (Inl e)
        with False Some r show ?thesis by (simp add: ExponentialSearch_def Let_def s0_def)
      next
        case (Inr p)
        obtain bound s1 where p: "p = (bound, s1)" by (cases p)
        from Inr p have b: "ExponentialSearch_bound target 1 s0 = Inr (bound, s1)" by simp
        note fr = ExponentialSearch_bound_frame[OF b, of now]
        from False Some r b
        have "ExponentialSearch_binary now target (bound div 2)
                (min bound (int (length (m_array_sv s1)) - 1))
                (RecordStep_sv
                   (''Found range ['' @ to_string (bound div 2) @ ''..'' @
                    to_string (min bound (int (length (m_array_sv s1)) - 1)) @
                    ''], starting binary search'') (- 1) (bound div 2)
                   (min bound (int (length (m_array_sv s1)) - 1)) False s1) = Inr s'"
          by (simp add: ExponentialSearch_def Let_def s0_def)
        from ExponentialSearch_binary_report[OF this] fr show ?thesis
          by (simp add: s0_def)
      qed
    qed
  qed
qed

lemma StartSearch_report_nonlinear:
  assumes "m_currentAlgorithm_sv s \<noteq> SearchAlgorithm_LinearSearch"
    and "StartSearch probe t0 t1 s = Inr s'"
  shows "callbackLog_sv s' = callbackLog_sv s @ reported t1 s \<and>
         m_totalComparisons_sv s' = m_totalComparisons_sv s"
proof -
  define s2 where "s2 = (ResetSearch s)\<lparr>m_startTime := t0, m_lastStepTime := t0\<rparr>"
  have fr: "callbackLog_sv s2 = callbackLog_sv s" "reported t1 s2 = reported t1 s"
    "m_totalComparisons_sv s2 = m_totalComparisons_sv s"
    "m_currentAlgorithm_sv s2 = m_currentAlgorithm_sv s"
    by (simp_all add: s2_def ResetSearch_def reported_def)
  note r = assms(2)[unfolded StartSearch_def Let_def, folded s2_def]
  have fin: "callbackLog_sv s3 = callbackLog_sv s2 @ reported t1 s2 \<and>
             m_totalComparisons_sv s3 = m_totalComparisons_sv s2 \<Longrightarrow>
             s' = (if m_steps s3 \<noteq> [] then s3\<lparr>m_isRunning := True\<rparr> else s3) \<Longrightarrow>
             ?thesis" for s3
    using fr by simp
  show ?thesis
  proof (cases "m_currentAlgorithm_sv s")
    case SearchAlgorithm_LinearSearch
    with assms(1) show ?thesis by simp
  next
    case SearchAlgorithm_BinarySearch
    with r fr obtain s3 where e: "BinarySearch t1 (m_targetValue s2) s2 = Inr s3"
      and s': "s' = (if m_steps s3 \<noteq> [] then s3\<lparr>m_isRunning := True\<rparr> else s3)"
      by (auto split: sum.splits)
    from e have "callbackLog_sv s3 = callbackLog_sv s2 @ reported t1 s2 \<and>
             m_totalComparisons_sv s3 = m_totalComparisons_sv s2"
      by (auto simp add: BinarySearch_def Let_def dest: BinarySearch_loop_report)
    then show ?thesis using s' by (rule fin)
  next
    case SearchAlgorithm_InterpolationSearch
    with r fr obtain s3 where e: "InterpolationSearch probe t1 (m_targetValue s2) s2 = Inr s3"
      and s': "s' = (if m_steps s3 \<noteq> [] then s3\<lparr>m_isRunning := True\<rparr> else s3)"
      by (auto split: sum.splits)
    from e have "callbackLog_sv s3 = callbackLog_sv s2 @ reported t1 s2 \<and>
             m_totalComparisons_sv s3 = m_totalComparisons_sv s2"
      by (auto simp add: InterpolationSearch_def Let_def dest: InterpolationSearch_loop_report)
    then show ?thesis using s' by (rule fin)
  next
    case SearchAlgorithm_ExponentialSearch
    with r fr obtain s3 where e: "ExponentialSearch t1 (m_targetValue s2) s2 = Inr s3"
      and s': "s' = (if m_steps s3 \<noteq> [] then s3\<lparr>m_isRunning := True\<rparr> else s3)"
      by (auto split: sum.splits)
    from e have "callbackLog_sv s3 = callbackLog_sv s2 @ reported t1 s2 \<and>
             m_totalComparisons_sv s3 = m_totalComparisons_sv s2"
      by (rule ExponentialSearch_report)
    then show ?thesis using s' by (rule fin)
  next
    case SearchAlgorithm_JumpSearch
    with r fr obtain s3 where e: "JumpSearch t1 (m_targetValue s2) s2 = Inr s3"
      and s': "s' = (if m_steps s3 \<noteq> [] then s3\<lparr>m_isRunning := True\<rparr> else s3)"
      by (auto split: sum.splits)
    from e have "callbackLog_sv s3 = callbackLog_sv s2 @ reported t1 s2 \<and>
             m_totalComparisons_sv s3 = m_totalComparisons_sv s2"
      by (auto simp add: JumpSearch_def Let_def dest: JumpSearch_jump_report)
    then show ?thesis using s' by (rule fin)
  qed
qed

lemma StartSearch_report_linear:
  assumes "m_currentAlgorithm_sv s = SearchAlgorithm_LinearSearch"
  shows "\<exists>s' k. StartSearch probe t0 t1 s = Inr s' \<and>
           callbackLog_sv s' = callbackLog_sv s @ reported t1 (s\<lparr>m_totalComparisons_sv := k\<rparr>)"
proof -
  define s2 where "s2 = (ResetSearch s)\<lparr>m_startTime := t0, m_lastStepTime := t0\<rparr>"
  obtain k where k: "callbackLog_sv (LinearSearch_loop t1 (m_targetValue s2) 0 s2) =
         callbackLog_sv s2 @ reported t1 (s2\<lparr>m_totalComparisons_sv := k\<rparr>)"
    using LinearSearch_loop_report by blast
  have "reported t1 (s2\<lparr>m_totalComparisons_sv := k\<rparr>) =
        reported t1 (s\<lparr>m_totalComparisons_sv := k\<rparr>)"
    by (simp add: s2_def ResetSearch_def reported_def)
  moreover have "callbackLog_sv s2 = callbackLog_sv s" by (simp add: s2_def ResetSearch_def)
  ultimately show ?thesis
    using assms k
    by (auto simp add: StartSearch_def Let_def s2_def LinearSearch_def ResetSearch_def)
qed

lemma StartSearch_linear_empty:
  assumes "m_array_sv s = []" and "m_currentAlgorithm_sv s = SearchAlgorithm_LinearSearch"
  shows "StartSearch probe t0 t1 s =
           Inr ((CompleteSearch t1 (- 1)
                  ((ResetSearch s)\<lparr>m_startTime := t0, m_lastStepTime := t0,
                     m_steps := [SearchStep_default
                                   \<lparr>step_description := ''Target not found in array''\<rparr>]\<rparr>))
                \<lparr>m_isRunning := True\<rparr>)"
proof -
  define s2 where "s2 = (ResetSearch s)\<lparr>m_startTime := t0, m_lastStepTime := t0\<rparr>"
  have a: "m_array_sv s2 = []" "m_steps s2 = []"
    "m_currentAlgorithm_sv s2 = SearchAlgorithm_LinearSearch"
    using assms by (simp_all add: s2_def ResetSearch_def)
  have "LinearSearch_loop t1 (m_targetValue s2) 0 s2 =
          CompleteSearch t1 (- 1)
            (s2\<lparr>m_steps := [SearchStep_default
                                \<lparr>step_description := ''Target not found in array''\<rparr>]\<rparr>)"
    using a by (subst LinearSearch_loop.simps) simp
  then have "StartSearch probe t0 t1 s =
          Inr ((CompleteSearch t1 (- 1)
            (s2\<lparr>m_steps := [SearchStep_default
                                \<lparr>step_description := ''Target not found in array''\<rparr>]\<rparr>))
               \<lparr>m_isRunning := True\<rparr>)"
    using a unfolding StartSearch_def Let_def s2_def[symmetric]
    by (simp add: LinearSearch_def CompleteSearch_def)
  then show ?thesis by (simp add: s2_def)
qed

lemma StartSearch_report_any:
  assumes "StartSearch probe t0 t1 v = Inr v'"
  shows "\<exists>c. callbackLog_sv v' =
           callbackLog_sv v @ (if m_performanceCallback_sv v then [c] else [])"
proof (cases "m_currentAlgorithm_sv v = SearchAlgorithm_LinearSearch")
  case True
  from StartSearch_report_linear[OF True, of probe t0 t1] assms
  obtain k where "callbackLog_sv v' =
      callbackLog_sv v @ reported t1 (v\<lparr>m_totalComparisons_sv := k\<rparr>)"
    by auto
  then show ?thesis by (auto simp add: reported_def)
next
  case False
  from StartSearch_report_nonlinear[OF False assms]
  show ?thesis by (auto simp add: reported_def)
qed

text \<open>
  Which executors return: Linear, Binary and Interpolation Search on every array,
  Exponential and Jump Search on every array that is not empty.
\<close>

lemma read_at_in_range:
  "0 \<le> i \<Longrightarrow> i < int (length xs) \<Longrightarrow> read_at xs i = Some (xs ! nat i)"
  by (simp add: read_at_def)

lemma BinarySearch_loop_total:
  "0 \<le> low \<Longrightarrow> high < int (length (m_array_sv s)) \<Longrightarrow>
   \<exists>s'. BinarySearch_loop now target low high s = Inr s'"
proof (induction now target low high s rule: BinarySearch_loop.induct)
  case (1 now target low high s)
  show ?case
  proof (cases "low \<le> high")
    case False
    then show ?thesis by (subst BinarySearch_loop.simps) simp
  next
    case True
    define mid where "mid = low + (high - low) div 2"
    have m: "low \<le> mid" "mid \<le> high" using True by (simp_all add: mid_def)
    define v where "v = m_array_sv s ! nat mid"
    have r: "read_at (m_array_sv s) mid = Some v"
      using m "1.prems" by (simp add: read_at_in_range v_def)
    define s1 where "s1 = RecordStep_sv
                          (''Checking middle element at index '' @ to_string mid @
                           '' (value: '' @ to_string v @ '')'') mid low high True s"
    consider (eq) "v = target" | (lt) "v \<noteq> target" "v < target"
      | (gt) "v \<noteq> target" "\<not> v < target" by blast
    then show ?thesis
    proof cases
      case eq
      with True r show ?thesis
        by (subst BinarySearch_loop.simps) (simp add: Let_def mid_def[symmetric])
    next
      case lt
      have "\<exists>s'. BinarySearch_loop now target (mid + 1) high
                      (RecordStep_sv
                         (''Target is greater than '' @ to_string v @
                          '', searching right half'') mid low high False s1) = Inr s'"
        using "1.IH"(1)[OF True mid_def r s1_def lt] m "1.prems" by (simp add: s1_def)
      with True r lt show ?thesis
        by (subst BinarySearch_loop.simps) (simp add: Let_def mid_def[symmetric] s1_def)
    next
      case gt
      have "\<exists>s'. BinarySearch_loop now target low (mid - 1)
                      (RecordStep_sv
                         (''Target is less than '' @ to_string v @
                          '', searching left half'') mid low high False s1) = Inr s'"
        using "1.IH"(2)[OF True mid_def r s1_def gt] m "1.prems" by (simp add: s1_def)
      with True r gt show ?thesis
        by (subst BinarySearch_loop.simps) (simp add: Let_def mid_def[symmetric] s1_def)
    qed
  qed
qed

lemma BinarySearch_total: "\<exists>s'. BinarySearch now target s = Inr s'"
  unfolding BinarySearch_def Let_def
  by (rule BinarySearch_loop_total) simp_all

lemma InterpolationSearch_loop_total:
  "0 \<le> low \<Longrightarrow> high < int (length (m_array_sv s)) \<Longrightarrow>
   \<exists>s'. InterpolationSearch_loop probe now target low high s = Inr s'"
proof (induction probe now target low high s rule: InterpolationSearch_loop.induct)
  case (1 probe now target low high s)
  show ?case
  proof (cases "low \<le> high")
    case False
    then show ?thesis by (subst InterpolationSearch_loop.simps) simp
  next
    case lh: True
    define a where "a = m_array_sv s ! nat low"
    define b where "b = m_array_sv s ! nat high"
    have ra: "read_at (m_array_sv s) low = Some a"
      using lh "1.prems" by (simp add: read_at_in_range a_def)
    have rb: "read_at (m_array_sv s) high = Some b"
      using lh "1.prems" by (simp add: read_at_in_range b_def)
    show ?thesis
    proof (cases "target \<ge> a \<and> target \<le> b")
      case False
      with lh ra rb show ?thesis by (subst InterpolationSearch_loop.simps) auto
    next
      case True
      then have ta: "target \<ge> a" and tb: "target \<le> b" by simp_all
      show ?thesis
      proof (cases "low = high")
        case True
        with lh ra rb ta tb show ?thesis
          by (subst InterpolationSearch_loop.simps) (simp add: Let_def)
      next
        case ne: False
        define pos0 where "pos0 = probe low high target a b"
        define pos where "pos = max low (min pos0 high)"
        have m: "low \<le> pos" "pos \<le> high" using lh by (simp_all add: pos_def)
        define v where "v = m_array_sv s ! nat pos"
        have rv: "read_at (m_array_sv s) pos = Some v"
          using m "1.prems" by (simp add: read_at_in_range v_def)
        define s1 where "s1 = RecordStep_sv
                              (''Interpolating position: '' @ to_string pos @
                               '' (value: '' @ to_string v @ '')'')
                              pos low high True s"
        consider (eq) "v = target" | (lt) "v \<noteq> target" "v < target"
          | (gt) "v \<noteq> target" "\<not> v < target" by blast
        then show ?thesis
        proof cases
          case eq
          with lh ra rb ta tb ne rv show ?thesis
            by (subst InterpolationSearch_loop.simps)
               (simp add: Let_def pos_def[symmetric] pos0_def[symmetric])
        next
          case lt
          have "\<exists>s'. InterpolationSearch_loop probe now target (pos + 1) high
                          (RecordStep_sv
                             (''Target is greater than '' @ to_string v @
                              '', searching right'') pos low high False s1) = Inr s'"
            using "1.IH"(1)[OF lh ra ta rb tb ne pos0_def pos_def rv s1_def lt] m "1.prems"
            by (simp add: s1_def)
          with lh ra rb ta tb ne rv lt show ?thesis
            by (subst InterpolationSearch_loop.simps)
               (simp add: Let_def pos_def[symmetric] pos0_def[symmetric] s1_def)
        next
          case gt
          have "\<exists>s'. InterpolationSearch_loop probe now target low (pos - 1)
                          (RecordStep_sv
                             (''Target is less than '' @ to_string v @
                              '', searching left'') pos low high False s1) = Inr s'"
            using "1.IH"(2)[OF lh ra ta rb tb ne pos0_def pos_def rv s1_def gt] m "1.prems"
            by (simp add: s1_def)
          with lh ra rb ta tb ne rv gt show ?thesis
            by (subst InterpolationSearch_loop.simps)
               (simp add: Let_def pos_def[symmetric] pos0_def[symmetric] s1_def)
        qed
      qed
    qed
  qed
qed

lemma InterpolationSearch_total: "\<exists>s'. InterpolationSearch probe now target s = Inr s'"
  unfolding InterpolationSearch_def Let_def
  by (rule InterpolationSearch_loop_total) simp_all

lemma ExponentialSearch_binary_total:
  "0 \<le> low \<Longrightarrow> high < int (length (m_array_sv s)) \<Longrightarrow>
   \<exists>s'. ExponentialSearch_binary now target low high s = Inr s'"
proof (induction now target low high s rule: ExponentialSearch_binary.induct)
  case (1 now target low high s)
  show ?case
  proof (cases "low \<le> high")
    case False
    then show ?thesis by (subst ExponentialSearch_binary.simps) simp
  next
    case True
    define mid where "mid = low + (high - low) div 2"
    have m: "low \<le> mid" "mid \<le> high" using True by (simp_all add: mid_def)
    define v where "v = m_array_sv s ! nat mid"
    have r: "read_at (m_array_sv s) mid = Some v"
      using m "1.prems" by (simp add: read_at_in_range v_def)
    define s1 where "s1 = RecordStep_sv
                          (''Binary search: checking index '' @ to_string mid @
                           '' (value: '' @ to_string v @ '')'') mid low high True s"
    consider (eq) "v = target" | (lt) "v \<noteq> target" "v < target"
      | (gt) "v \<noteq> target" "\<not> v < target" by blast
    then show ?thesis
    proof cases
      case eq
      with True r show ?thesis
        by (subst ExponentialSearch_binary.simps) (simp add: Let_def mid_def[symmetric])
    next
      case lt
      have "\<exists>s'. ExponentialSearch_binary now target (mid + 1) high s1 = Inr s'"
        using "1.IH"(1)[OF True mid_def r s1_def lt] m "1.prems" by (simp add: s1_def)
      with True r lt show ?thesis
        by (subst ExponentialSearch_binary.simps) (simp add: Let_def mid_def[symmetric] s1_def)
    next
      case gt
      have "\<exists>s'. ExponentialSearch_binary now target low (mid - 1) s1 = Inr s'"
        using "1.IH"(2)[OF True mid_def r s1_def gt] m "1.prems" by (simp add: s1_def)
      with True r gt show ?thesis
        by (subst ExponentialSearch_binary.simps) (simp add: Let_def mid_def[symmetric] s1_def)
    qed
  qed
qed

lemma ExponentialSearch_bound_total:
  "0 < bound \<Longrightarrow>
   \<exists>b s'. ExponentialSearch_bound target bound s = Inr (b, s') \<and> 0 < b \<and>
           m_array_sv s' = m_array_sv s"
proof (induction target bound s rule: ExponentialSearch_bound.induct)
  case (1 target bound s)
  show ?case
  proof (cases "bound < int (length (m_array_sv s))")
    case False
    with "1.prems" show ?thesis by (subst ExponentialSearch_bound.simps) simp
  next
    case True
    define v where "v = m_array_sv s ! nat bound"
    have r: "read_at (m_array_sv s) bound = Some v"
      using True "1.prems" by (simp add: read_at_in_range v_def)
    show ?thesis
    proof (cases "v < target")
      case False
      with True r "1.prems" show ?thesis by (subst ExponentialSearch_bound.simps) simp
    next
      case vt: True
      have nb: "\<not> bound \<le> 0" using "1.prems" by simp
      from "1.IH"[OF True r vt nb] "1.prems"
      obtain b s' where "ExponentialSearch_bound target (bound * 2)
                     (RecordStep_sv
                        (''Checking bound at index '' @ to_string bound @
                         '' (value: '' @ to_string v @ '')'') bound (- 1) (- 1) True s)
                   = Inr (b, s')" "0 < b" "m_array_sv s' = m_array_sv s"
        by auto
      with True r vt nb show ?thesis by (subst ExponentialSearch_bound.simps) simp
    qed
  qed
qed

lemma ExponentialSearch_total:
  assumes "m_array_sv s \<noteq> []"
  shows "\<exists>s'. ExponentialSearch now target s = Inr s'"
proof -
  define s0 where "s0 = RecordStep_sv ''Starting Exponential Search'' (- 1) (- 1) (- 1) False s"
  define v0 where "v0 = m_array_sv s0 ! 0"
  have r0: "read_at (m_array_sv s0) 0 = Some v0"
    using assms by (simp add: read_at_def s0_def v0_def)
  show ?thesis
  proof (cases "v0 = target")
    case True
    with r0 show ?thesis by (simp add: ExponentialSearch_def Let_def s0_def[symmetric])
  next
    case False
    from ExponentialSearch_bound_total[of 1 target s0]
    obtain b s1 where b: "ExponentialSearch_bound target 1 s0 = Inr (b, s1)" "0 < b"
      "m_array_sv s1 = m_array_sv s0" by auto
    define low where "low = b div 2"
    define high where "high = min b (int (length (m_array_sv s1)) - 1)"
    define s2 where "s2 = RecordStep_sv
                           (''Found range ['' @ to_string low @ ''..'' @ to_string high @
                            ''], starting binary search'') (- 1) low high False s1"
    have "0 \<le> low" using b by (simp add: low_def)
    moreover have "high < int (length (m_array_sv s2))" by (simp add: high_def s2_def)
    ultimately obtain s' where "ExponentialSearch_binary now target low high s2 = Inr s'"
      using ExponentialSearch_binary_total by blast
    with False r0 b show ?thesis
      by (simp add: ExponentialSearch_def Let_def s0_def[symmetric] low_def high_def s2_def)
  qed
qed

lemma isqrt_from_ge: "k \<le> isqrt_from m k"
proof (induction m k rule: isqrt_from.induct)
  case (1 m k)
  show ?case
  proof (cases "(k + 1) * (k + 1) \<le> m")
    case True
    with "1" have "k + 1 \<le> isqrt_from m (k + 1)" by simp
    with True show ?thesis by (subst isqrt_from.simps) simp
  next
    case False
    then show ?thesis by (subst isqrt_from.simps) simp
  qed
qed

lemma isqrt_pos: "xs \<noteq> [] \<Longrightarrow> 0 < isqrt (length xs)"
proof -
  assume "xs \<noteq> []"
  then have "isqrt_from (length xs) 0 = isqrt_from (length xs) 1"
    by (subst isqrt_from.simps) (simp add: Suc_le_eq)
  moreover have "1 \<le> isqrt_from (length xs) 1" by (rule isqrt_from_ge)
  ultimately show ?thesis by (simp add: isqrt_def)
qed

lemma JumpSearch_linear_total:
  "0 \<le> prev \<Longrightarrow> prev < min step (int (length (m_array_sv s))) \<Longrightarrow>
   \<exists>s'. JumpSearch_linear now target step prev s = Inr s'"
proof (induction now target step prev s rule: JumpSearch_linear.induct)
  case (1 now target step prev s)
  define v where "v = m_array_sv s ! nat prev"
  have r: "read_at (m_array_sv s) prev = Some v"
    using "1.prems" by (simp add: read_at_in_range v_def)
  show ?case
  proof (cases "v < target")
    case False
    with r show ?thesis by (subst JumpSearch_linear.simps) simp
  next
    case vt: True
    define s1 where "s1 = RecordStep_sv
                       (''Linear search: checking index '' @ to_string prev @
                        '' (value: '' @ to_string v @ '')'') prev (- 1) (- 1) True s"
    have a1: "m_array_sv s1 = m_array_sv s" by (simp add: s1_def)
    show ?thesis
    proof (cases "prev + 1 = min step (int (length (m_array_sv s1)))")
      case True
      with r vt show ?thesis
        unfolding s1_def by (subst JumpSearch_linear.simps) (simp add: Let_def)
    next
      case False
      have lt: "prev + 1 < min step (int (length (m_array_sv s1)))"
        using "1.prems" False a1 by (auto simp add: min_def split: if_splits)
      have "\<exists>s'. JumpSearch_linear now target step (prev + 1) s1 = Inr s'"
        using "1.IH"[OF r vt s1_def refl False] "1.prems" lt by simp
      with r vt False show ?thesis
        unfolding s1_def by (subst JumpSearch_linear.simps) (simp add: Let_def)
    qed
  qed
qed

lemma JumpSearch_jump_total:
  "m_array_sv s \<noteq> [] \<Longrightarrow> 0 \<le> prev \<Longrightarrow> prev < step \<Longrightarrow>
   prev < int (length (m_array_sv s)) \<Longrightarrow>
   \<exists>s'. JumpSearch_jump now target step prev s = Inr s'"
proof (induction now target step prev s rule: JumpSearch_jump.induct)
  case (1 now target step prev s)
  define n where "n = int (length (m_array_sv s))"
  define idx where "idx = min step n - 1"
  define v where "v = m_array_sv s ! nat idx"
  have npos: "0 < n" using "1.prems" by (simp add: n_def)
  have r: "read_at (m_array_sv s) idx = Some v"
    using "1.prems" npos by (simp add: read_at_in_range v_def idx_def n_def)
  show ?case
  proof (cases "v < target")
    case False
    have "\<exists>s'. JumpSearch_linear now target step prev
                 (RecordStep_sv
                    (''Found potential block ['' @ to_string prev @ ''..'' @ to_string idx @
                     ''], linear searching'') (- 1) prev idx False s) = Inr s'"
      using "1.prems" by (intro JumpSearch_linear_total) simp_all
    with r False show ?thesis
      unfolding idx_def n_def by (subst JumpSearch_jump.simps) (simp add: Let_def)
  next
    case vt: True
    define s1 where "s1 = RecordStep_sv
                          (''Jumping to index '' @ to_string idx @
                           '' (value: '' @ to_string v @ '')'') idx (- 1) (- 1) True s"
    define step' where "step' = step + isqrt (length (m_array_sv s1))"
    have a1: "m_array_sv s1 = m_array_sv s" by (simp add: s1_def)
    show ?thesis
    proof (cases "step \<ge> n")
      case True
      with r vt show ?thesis
        unfolding idx_def n_def by (subst JumpSearch_jump.simps) (simp add: Let_def)
    next
      case False
      have "0 < isqrt (length (m_array_sv s1))" using "1.prems" a1 by (simp add: isqrt_pos)
      then have "step < step'" by (simp add: step'_def)
      with "1.IH"[OF n_def idx_def r vt s1_def refl step'_def False] "1.prems" False a1
      have "\<exists>s'. JumpSearch_jump now target step' step s1 = Inr s'"
        by (simp add: n_def)
      with r vt False show ?thesis
        unfolding step'_def s1_def idx_def n_def
        by (subst JumpSearch_jump.simps) (simp add: Let_def)
    qed
  qed
qed

lemma JumpSearch_total:
  assumes "m_array_sv s \<noteq> []"
  shows "\<exists>s'. JumpSearch now target s = Inr s'"
  unfolding JumpSearch_def Let_def
  using assms by (intro JumpSearch_jump_total) (simp_all add: isqrt_pos)

lemma StartSearch_total:
  assumes "m_currentAlgorithm_sv s = SearchAlgorithm_LinearSearch \<or>
           m_currentAlgorithm_sv s = SearchAlgorithm_BinarySearch \<or>
           m_currentAlgorithm_sv s = SearchAlgorithm_InterpolationSearch \<or>
           (m_array_sv s \<noteq> [] \<and>
            (m_currentAlgorithm_sv s = SearchAlgorithm_ExponentialSearch \<or>
             m_currentAlgorithm_sv s = SearchAlgorithm_JumpSearch))"
  shows "\<exists>s'. StartSearch probe t0 t1 s = Inr s'"
proof -
  define s2 where "s2 = (ResetSearch s)\<lparr>m_startTime := t0, m_lastStepTime := t0\<rparr>"
  have fr: "m_currentAlgorithm_sv s2 = m_currentAlgorithm_sv s" "m_array_sv s2 = m_array_sv s"
    by (simp_all add: s2_def ResetSearch_def)
  have "\<exists>s3. (case m_currentAlgorithm_sv s2 of
                 SearchAlgorithm_LinearSearch \<Rightarrow> Inr (LinearSearch t1 (m_targetValue s2) s2)
               | SearchAlgorithm_BinarySearch \<Rightarrow> BinarySearch t1 (m_targetValue s2) s2
               | SearchAlgorithm_InterpolationSearch \<Rightarrow>
                   InterpolationSearch probe t1 (m_targetValue s2) s2
               | SearchAlgorithm_ExponentialSearch \<Rightarrow> ExponentialSearch t1 (m_targetValue s2) s2
               | SearchAlgorithm_JumpSearch \<Rightarrow> JumpSearch t1 (m_targetValue s2) s2) = Inr s3"
    using assms fr BinarySearch_total[of t1 "m_targetValue s2" s2]
      InterpolationSearch_total[of probe t1 "m_targetValue s2" s2]
      ExponentialSearch_total[of s2 t1 "m_targetValue s2"]
      JumpSearch_total[of s2 t1 "m_targetValue s2"]
    by (cases "m_currentAlgorithm_sv s") auto
  then show ?thesis
    unfolding StartSearch_def Let_def s2_def[symmetric] by auto
qed

lemma StartSearch_clicked_total:
  assumes "m_currentAlgorithm_sv s = SearchAlgorithm_LinearSearch \<or>
           m_currentAlgorithm_sv s = SearchAlgorithm_BinarySearch \<or>
           m_currentAlgorithm_sv s = SearchAlgorithm_InterpolationSearch \<or>
           (m_array_sv s \<noteq> [] \<and>
            (m_currentAlgorithm_sv s = SearchAlgorithm_ExponentialSearch \<or>
             m_currentAlgorithm_sv s = SearchAlgorithm_JumpSearch))"
  shows "\<exists>s'. StartSearch_clicked probe ts t0 t1 s = Inr s'"
proof (cases "m_targetValue s = - 1")
  case True
  then show ?thesis by (simp add: StartSearch_clicked_def)
next
  case False
  define s1 where "s1 = ResetSearch (s\<lparr>m_searchStartTime := ts, m_totalComparisons_sv := 0\<rparr>)"
  have "m_currentAlgorithm_sv s1 = m_currentAlgorithm_sv s" "m_array_sv s1 = m_array_sv s"
    by (simp_all add: s1_def ResetSearch_def)
  with assms have "\<exists>s'. StartSearch probe t0 t1 s1 = Inr s'"
    by (intro StartSearch_total) simp
  with False show ?thesis by (simp add: StartSearch_clicked_def s1_def)
qed

section \<open>Frame lemmas for the pathfinding controller\<close>

lemma ExecuteCurrentStep_pf_frame:
  "m_cellsExplored (ExecuteCurrentStep_pf s) = m_cellsExplored s"
  "m_pathLength (ExecuteCurrentStep_pf s) = m_pathLength s"
  "m_animationSteps (ExecuteCurrentStep_pf s) = m_animationSteps s"
  "m_finalPath (ExecuteCurrentStep_pf s) = m_finalPath s"
  "m_currentStepIndex_pf (ExecuteCurrentStep_pf s) = m_currentStepIndex_pf s"
  "m_state_pf (ExecuteCurrentStep_pf s) = m_state_pf s"
  "callbackLog_pf (ExecuteCurrentStep_pf s) = callbackLog_pf s"
  by (simp_all add: ExecuteCurrentStep_pf_def Let_def)

lemma StepForward_pf_frame:
  "m_cellsExplored (StepForward_pf s) = m_cellsExplored s"
  "m_pathLength (StepForward_pf s) = m_pathLength s"
  "m_animationSteps (StepForward_pf s) = m_animationSteps s"
  "m_finalPath (StepForward_pf s) = m_finalPath s"
  "callbackLog_pf (StepForward_pf s) = callbackLog_pf s"
  by (simp_all add: StepForward_pf_def Let_def ExecuteCurrentStep_pf_frame)

lemma StepForward_pf_state:
  "m_state_pf (StepForward_pf s) =
     (if m_currentStepIndex_pf s < length (m_animationSteps s) then m_state_pf s
      else Completed)"
  by (simp add: StepForward_pf_def Let_def ExecuteCurrentStep_pf_frame)

lemma Update_pf_frame:
  "m_cellsExplored (Update_pf now s) = m_cellsExplored s"
  "m_pathLength (Update_pf now s) = m_pathLength s"
  "m_animationSteps (Update_pf now s) = m_animationSteps s"
  "m_finalPath (Update_pf now s) = m_finalPath s"
  "callbackLog_pf (Update_pf now s) = callbackLog_pf s"
  by (simp_all add: Update_pf_def Let_def StepForward_pf_frame)

lemma PausePathfinding_frame:
  "m_cellsExplored (PausePathfinding s) = m_cellsExplored s"
  "m_pathLength (PausePathfinding s) = m_pathLength s"
  "m_animationSteps (PausePathfinding s) = m_animationSteps s"
  "m_finalPath (PausePathfinding s) = m_finalPath s"
  "callbackLog_pf (PausePathfinding s) = callbackLog_pf s"
  by (simp_all add: PausePathfinding_def)

lemma Speed_changed_pf_frame:
  "m_cellsExplored (Speed_changed_pf v d s) = m_cellsExplored s"
  "m_pathLength (Speed_changed_pf v d s) = m_pathLength s"
  "m_animationSteps (Speed_changed_pf v d s) = m_animationSteps s"
  "m_finalPath (Speed_changed_pf v d s) = m_finalPath s"
  "callbackLog_pf (Speed_changed_pf v d s) = callbackLog_pf s"
  by (simp_all add: Speed_changed_pf_def)

lemma ResetGrid_callbackLog: "callbackLog_pf (ResetGrid s) = callbackLog_pf s"
  by (simp add: ResetGrid_def)

lemma apply_pf_op_frame:
  "m_cellsExplored (apply_pf_op op s) = m_cellsExplored s"
  "m_pathLength (apply_pf_op op s) = m_pathLength s"
  "m_animationSteps (apply_pf_op op s) = m_animationSteps s"
  "m_finalPath (apply_pf_op op s) = m_finalPath s"
  "callbackLog_pf (apply_pf_op op s) = callbackLog_pf s"
  by (cases op;
      simp add: Update_pf_frame StepForward_pf_frame PausePathfinding_frame
        Speed_changed_pf_frame)+

lemma run_pf_ops_frame:
  "m_cellsExplored (run_pf_ops ops s) = m_cellsExplored s \<and>
   m_pathLength (run_pf_ops ops s) = m_pathLength s \<and>
   m_animationSteps (run_pf_ops ops s) = m_animationSteps s \<and>
   m_finalPath (run_pf_ops ops s) = m_finalPath s \<and>
   callbackLog_pf (run_pf_ops ops s) = callbackLog_pf s"
  unfolding run_pf_ops_def
  by (induction ops arbitrary: s) (simp_all add: apply_pf_op_frame)

section \<open>Frame lemmas for the tree controller\<close>

lemma RecordStep_tv_frame [simp]:
  "callbackLog_tv (RecordStep_tv d h s) = callbackLog_tv s"
  "m_comparisons_tv (RecordStep_tv d h s) = m_comparisons_tv s"
  "m_rotations (RecordStep_tv d h s) = m_rotations s"
  "m_isComplete_tv (RecordStep_tv d h s) = m_isComplete_tv s"
  "m_isRunning_tv (RecordStep_tv d h s) = m_isRunning_tv s"
  by (simp_all add: RecordStep_tv_def)

lemma BSTSearch_frame:
  "BSTSearch p t v s = (found, t', s') \<Longrightarrow>
     callbackLog_tv s' = callbackLog_tv s \<and> m_rotations s' = m_rotations s \<and>
     m_isComplete_tv s' = m_isComplete_tv s \<and> m_isRunning_tv s' = m_isRunning_tv s"
proof (induction p t v s arbitrary: found t' s' rule: BSTSearch.induct)
  case (1 p v s)
  then show ?case by simp
next
  case (2 p d l r v s)
  show ?case
  proof (cases "node_value d = v")
    case True
    with "2.prems" show ?thesis by auto
  next
    case ne: False
    define s1 where "s1 = RecordStep_tv
                   (''Comparing '' @ to_string v @ '' with '' @ to_string (node_value d))
                   (Some p) s"
    define s2 where "s2 = s1\<lparr>m_comparisons_tv := m_comparisons_tv s1 + 1\<rparr>"
    have fr: "callbackLog_tv s2 = callbackLog_tv s" "m_rotations s2 = m_rotations s"
      "m_isComplete_tv s2 = m_isComplete_tv s" "m_isRunning_tv s2 = m_isRunning_tv s"
      by (simp_all add: s2_def s1_def)
    show ?thesis
    proof (cases "v < node_value d")
      case True
      define s3 where "s3 = RecordStep_tv
                        (to_string v @ '' < '' @ to_string (node_value d) @
                         '', searching left'') None s2"
      obtain f l' s4 where e: "BSTSearch (p @ [False]) l v s3 = (f, l', s4)"
        by (cases "BSTSearch (p @ [False]) l v s3") auto
      from "2.IH"(1)[OF ne s1_def s2_def True e[unfolded s3_def]]
      have "callbackLog_tv s4 = callbackLog_tv s \<and> m_rotations s4 = m_rotations s \<and>
            m_isComplete_tv s4 = m_isComplete_tv s \<and> m_isRunning_tv s4 = m_isRunning_tv s"
        using fr by simp
      moreover from "2.prems" ne True e have "s' = s4"
        by (simp add: Let_def s1_def s2_def s3_def)
      ultimately show ?thesis by simp
    next
      case False
      define s3 where "s3 = RecordStep_tv
                        (to_string v @ '' > '' @ to_string (node_value d) @
                         '', searching right'') None s2"
      obtain f r' s4 where e: "BSTSearch (p @ [True]) r v s3 = (f, r', s4)"
        by (cases "BSTSearch (p @ [True]) r v s3") auto
      from "2.IH"(2)[OF ne s1_def s2_def False e[unfolded s3_def]]
      have "callbackLog_tv s4 = callbackLog_tv s \<and> m_rotations s4 = m_rotations s \<and>
            m_isComplete_tv s4 = m_isComplete_tv s \<and> m_isRunning_tv s4 = m_isRunning_tv s"
        using fr by simp
      moreover from "2.prems" ne False e have "s' = s4"
        by (simp add: Let_def s1_def s2_def s3_def)
      ultimately show ?thesis by simp
    qed
  qed
qed

lemma ResetVisualization_frame:
  "callbackLog_tv (ResetVisualization s) = callbackLog_tv s"
  "m_comparisons_tv (ResetVisualization s) = m_comparisons_tv s"
  "m_rotations (ResetVisualization s) = m_rotations s"
  by (simp_all add: ResetVisualization_def)

lemma ClearTree_callbackLog: "callbackLog_tv (ClearTree s) = callbackLog_tv s"
  by (simp add: ClearTree_def)

lemma SearchValue_frame:
  "callbackLog_tv (SearchValue t0 t1 v s) = callbackLog_tv s"
  "m_isComplete_tv (SearchValue t0 t1 v s) = False"
  "m_isRunning_tv (SearchValue t0 t1 v s) = False"
proof -
  define s3 where "s3 = RecordStep_tv (''Searching for value '' @ to_string v) None
                          (ResetVisualization (s\<lparr>m_startTime_tv := t0, m_comparisons_tv := 0\<rparr>))"
  obtain f rt s4 where e: "BSTSearch [] (m_root s3) v s3 = (f, rt, s4)"
    by (cases "BSTSearch [] (m_root s3) v s3") auto
  from BSTSearch_frame[OF e]
  have fr: "callbackLog_tv s4 = callbackLog_tv s" "m_isComplete_tv s4 = False"
    "m_isRunning_tv s4 = False"
    by (simp_all add: s3_def ResetVisualization_def)
  have sv: "SearchValue t0 t1 v s =
        (let s5 = s4\<lparr>m_root := rt\<rparr>;
             s6 = (if f \<noteq> None
                   then RecordStep_tv
                          (''Found value '' @ to_string v @ '' in tree!'') None s5
                   else RecordStep_tv
                          (''Value '' @ to_string v @ '' not found in tree'') None s5)
         in s6\<lparr>m_endTime_tv := t1,
               m_operationTime := real_of_int (t1 - t0) / 1000000\<rparr>)"
    unfolding SearchValue_def Let_def s3_def[symmetric] e by simp
  show "callbackLog_tv (SearchValue t0 t1 v s) = callbackLog_tv s"
    unfolding sv Let_def using fr by simp
  show "m_isComplete_tv (SearchValue t0 t1 v s) = False"
    unfolding sv Let_def using fr by simp
  show "m_isRunning_tv (SearchValue t0 t1 v s) = False"
    unfolding sv Let_def using fr by simp
qed

lemma Search_clicked_callbackLog:
  "callbackLog_tv (Search_clicked t0 t1 s) = callbackLog_tv s"
  by (simp add: Search_clicked_def SearchValue_frame)

lemma Step_clicked_tv_frame:
  "m_comparisons_tv (Step_clicked_tv s) = m_comparisons_tv s"
  "m_rotations (Step_clicked_tv s) = m_rotations s"
  "m_steps_tv (Step_clicked_tv s) = m_steps_tv s"
  "callbackLog_tv (Step_clicked_tv s) = callbackLog_tv s"
  "m_isComplete_tv (Step_clicked_tv s) = m_isComplete_tv s"
  by (simp_all add: Step_clicked_tv_def)

lemma Speed_changed_tv_frame:
  "m_comparisons_tv (Speed_changed_tv v s) = m_comparisons_tv s"
  "m_rotations (Speed_changed_tv v s) = m_rotations s"
  "m_steps_tv (Speed_changed_tv v s) = m_steps_tv s"
  "callbackLog_tv (Speed_changed_tv v s) = callbackLog_tv s"
  by (simp_all add: Speed_changed_tv_def)

lemma Update_tv_frame:
  "m_comparisons_tv (Update_tv now s) = m_comparisons_tv s"
  "m_rotations (Update_tv now s) = m_rotations s"
  "m_steps_tv (Update_tv now s) = m_steps_tv s"
  "callbackLog_tv (Update_tv now s) = callbackLog_tv s"
  by (simp_all add: Update_tv_def Let_def)

lemma apply_tv_op_frame:
  "m_comparisons_tv (apply_tv_op op s) = m_comparisons_tv s"
  "m_rotations (apply_tv_op op s) = m_rotations s"
  "m_steps_tv (apply_tv_op op s) = m_steps_tv s"
  "callbackLog_tv (apply_tv_op op s) = callbackLog_tv s"
  by (cases op; simp add: Update_tv_frame Step_clicked_tv_frame Speed_changed_tv_frame)+

lemma run_tv_ops_frame:
  "m_comparisons_tv (run_tv_ops ops s) = m_comparisons_tv s \<and>
   m_rotations (run_tv_ops ops s) = m_rotations s \<and>
   m_steps_tv (run_tv_ops ops s) = m_steps_tv s \<and>
   callbackLog_tv (run_tv_ops ops s) = callbackLog_tv s"
  unfolding run_tv_ops_def
  by (induction ops arbitrary: s) (simp_all add: apply_tv_op_frame)

section \<open>Frame lemmas for the graph controller\<close>

lemma ExecuteAlgorithm_callbackLog:
  "callbackLog_gv (ExecuteAlgorithm ex g) = callbackLog_gv g"
  by (simp add: ExecuteAlgorithm_def Let_def split: Algorithm_gv.splits prod.splits)

lemma ClearGraph_callbackLog: "callbackLog_gv (ClearGraph g) = callbackLog_gv g"
  by (simp add: ClearGraph_def)

section \<open>The history of the host\<close>

lemma history_step:
  "m_performanceHistory (RecordAlgorithmPerformance now n t c w app) =
     (let h = m_performanceHistory app @
                [\<lparr>name = n, executionTime = t, comparisons = c, swaps = w,
                  memoryUsage = memory_estimate app, timestamp = format_timestamp now\<rparr>]
      in if length h > 50 then tl h else h)"
  by (simp add: RecordAlgorithmPerformance_def Let_def)

lemma history_bound_step:
  "length (m_performanceHistory app) \<le> 50 \<Longrightarrow>
   length (m_performanceHistory (RecordAlgorithmPerformance now n t c w app)) \<le> 50"
  by (simp add: history_step Let_def)

lemma deliver_bound:
  "length (m_performanceHistory app) \<le> 50 \<Longrightarrow>
   length (m_performanceHistory (deliver calls app)) \<le> 50"
proof (induction calls arbitrary: app)
  case Nil
  then show ?case by (simp add: deliver_def)
next
  case (Cons a calls)
  obtain now c where a: "a = (now, c)" by (cases a)
  have "length (m_performanceHistory (ReportAlgorithmPerformance now (call_name c)
          (call_time c) (call_comparisons c) (call_swaps c) app)) \<le> 50"
    using Cons.prems by (simp add: ReportAlgorithmPerformance_def history_bound_step)
  from Cons.IH[OF this] show ?case by (simp add: deliver_def a)
qed

lemma Record_memory_estimate:
  "memory_estimate (RecordAlgorithmPerformance now n t c w app) = memory_estimate app"
  by (simp add: RecordAlgorithmPerformance_def Let_def memory_estimate_def
        split: VisualizationMode.splits)

lemma report_one:
  "length (m_performanceHistory app) \<le> 50 \<Longrightarrow>
   m_performanceHistory
     (ReportAlgorithmPerformance now (call_name c) (call_time c) (call_comparisons c)
        (call_swaps c) app) =
   drop (length (m_performanceHistory app) + 1 - 50)
     (m_performanceHistory app @ [perf_record app (now, c)])"
proof (cases "length (m_performanceHistory app) = 50")
  case True
  then have "m_performanceHistory app \<noteq> []" by auto
  with True show ?thesis
    by (simp add: ReportAlgorithmPerformance_def history_step Let_def perf_record_def
          drop_Suc tl_append2)
next
  case False
  assume "length (m_performanceHistory app) \<le> 50"
  with False show ?thesis
    by (simp add: ReportAlgorithmPerformance_def history_step Let_def perf_record_def)
qed

lemma perf_record_cong:
  "memory_estimate app' = memory_estimate app \<Longrightarrow> perf_record app' = perf_record app"
  by (auto simp add: perf_record_def fun_eq_iff)

lemma deliver_history:
  "length (m_performanceHistory app) \<le> 50 \<Longrightarrow>
   m_performanceHistory (deliver calls app) =
     drop (length (m_performanceHistory app) + length calls - 50)
       (m_performanceHistory app @ map (perf_record app) calls)"
proof (induction calls arbitrary: app)
  case Nil
  then show ?case by (simp add: deliver_def)
next
  case (Cons a calls)
  obtain now c where a: "a = (now, c)" by (cases a)
  define app1 where "app1 = ReportAlgorithmPerformance now (call_name c) (call_time c)
                              (call_comparisons c) (call_swaps c) app"
  define h where "h = m_performanceHistory app"
  define r where "r = perf_record app (now, c)"
  define d where "d = length h + 1 - 50"
  have h1: "m_performanceHistory app1 = drop d (h @ [r])"
    using Cons.prems by (simp add: app1_def h_def r_def d_def report_one)
  have dle: "d \<le> 1" using Cons.prems by (simp add: d_def h_def)
  have len1: "length (m_performanceHistory app1) \<le> 50"
    using Cons.prems by (simp add: h1 d_def h_def)
  have mem: "perf_record app1 = perf_record app"
    by (rule perf_record_cong)
       (simp add: app1_def ReportAlgorithmPerformance_def Record_memory_estimate)
  define rs where "rs = map (perf_record app) calls"
  define k where "k = length (drop d (h @ [r])) + length calls - 50"
  have hl: "length h \<le> 50" using Cons.prems by (simp add: h_def)
  have "d \<le> length h" by (simp add: d_def)
  then have e1: "drop d (h @ [r]) @ rs = drop d (h @ r # rs)"
    by simp
  have e2: "k + d = length h + length (a # calls) - 50"
    using hl by (simp add: k_def d_def)
  have "m_performanceHistory (deliver (a # calls) app) = m_performanceHistory (deliver calls app1)"
    by (simp add: deliver_def a app1_def)
  also have "\<dots> = drop (length (m_performanceHistory app1) + length calls - 50)
                     (m_performanceHistory app1 @ map (perf_record app1) calls)"
    by (rule Cons.IH[OF len1])
  also have "\<dots> = drop k (drop d (h @ [r]) @ rs)"
    by (simp only: h1 mem k_def rs_def)
  also have "\<dots> = drop k (drop d (h @ r # rs))"
    by (simp only: e1)
  also have "\<dots> = drop (k + d) (h @ r # rs)"
    by (simp only: drop_drop)
  also have "\<dots> = drop (length h + length (a # calls) - 50) (h @ r # rs)"
    by (simp only: e2)
  finally show ?case by (simp add: h_def rs_def r_def a)
qed

section \<open>The claims\<close>

text \<open>
  C1 (as amended). In the sorting, pathfinding, tree and graph controllers the counters
  and the step log are left as generation wrote them by every playback schedule.
  Sorting: once a run has been started, no sequence of ticks, manual steps forward or
  backward, pauses, resumes and speed changes modifies \<^verbatim>\<open>m_comparisons\<close>, \<^verbatim>\<open>m_swaps\<close> or
  the step log; they are written by generation and by \<^verbatim>\<open>ResetArray\<close> only. Pathfinding:
  no sequence of ticks, manual steps, pauses and speed changes modifies
  \<^verbatim>\<open>m_cellsExplored\<close>, \<^verbatim>\<open>m_pathLength\<close>, the log of explored cells or the final path. Tree:
  no sequence of ticks, manual steps and speed changes modifies \<^verbatim>\<open>m_comparisons\<close>,
  \<^verbatim>\<open>m_rotations\<close> or the step log. Graph: the controller has no playback, and its
  per-frame \<^verbatim>\<open>Update\<close> changes nothing. Search controller: the counter reported to the
  host (\<^verbatim>\<open>m_totalComparisons\<close>) and the log are unchanged by ticks and manual steps, but
  the displayed counter \<^verbatim>\<open>m_comparisons\<close> is incremented by \<^verbatim>\<open>StepSearch\<close>, by one for
  every comparison step it plays, so its value depends on how far playback has run.
\<close>

theorem C1_counters_under_playback:
  "(m_state s \<noteq> Stopped \<and> Op_ResetArray \<notin> set ops \<longrightarrow>
      m_comparisons (run_ops ex ops s) = m_comparisons s \<and>
      m_swaps (run_ops ex ops s) = m_swaps s \<and>
      m_sortingSteps (run_ops ex ops s) = m_sortingSteps s) \<and>
   m_cellsExplored (run_pf_ops pf_ops p) = m_cellsExplored p \<and>
   m_pathLength (run_pf_ops pf_ops p) = m_pathLength p \<and>
   m_animationSteps (run_pf_ops pf_ops p) = m_animationSteps p \<and>
   m_finalPath (run_pf_ops pf_ops p) = m_finalPath p \<and>
   m_comparisons_tv (run_tv_ops tv_ops tr) = m_comparisons_tv tr \<and>
   m_rotations (run_tv_ops tv_ops tr) = m_rotations tr \<and>
   m_steps_tv (run_tv_ops tv_ops tr) = m_steps_tv tr \<and>
   Update_gv g = g \<and>
   m_totalComparisons_sv (fold Update_sv nows v) = m_totalComparisons_sv v \<and>
   m_steps (fold Update_sv nows v) = m_steps v \<and>
   m_totalComparisons_sv (Step_clicked now v) = m_totalComparisons_sv v \<and>
   m_steps (Step_clicked now v) = m_steps v \<and>
   m_comparisons_sv (StepSearch now v) =
     m_comparisons_sv v +
     (if m_currentStep v < length (m_steps v) \<and> isComparison (m_steps v ! m_currentStep v)
      then 1 else 0)"
  using run_ops_playback[of s ops ex] fold_Update_sv_frame[of nows v]
        StepSearch_comparisons[of now v] run_pf_ops_frame[of pf_ops p]
        run_tv_ops_frame[of tv_ops tr] Step_clicked_frame[of now v]
  by (simp add: Update_gv_def)

text \<open>
  The theorem at a started Bubble Sort run on \<open>[5,2,9,1,7,3,10,4,8,6]\<close>, played by a tick, a speed
  change, a second tick, a step back, a pause and a resume.
\<close>

theorem C1_counters_under_playback_witness:
  "m_state (StartSorting no_executor 0 0
              (SortingVisualizer_init [5, 2, 9, 1, 7, 3, 10, 4, 8, 6])) \<noteq> Stopped \<and>
   Op_ResetArray \<notin> set [Op_Update 100000000, Op_SetAnimationSpeed 2, Op_Update 200000000,
                          Op_StepBackward, Op_PauseSorting, Op_StartSorting 0 300000000] \<and>
   m_comparisons
     (run_ops no_executor
        [Op_Update 100000000, Op_SetAnimationSpeed 2, Op_Update 200000000,
         Op_StepBackward, Op_PauseSorting, Op_StartSorting 0 300000000]
        (StartSorting no_executor 0 0
           (SortingVisualizer_init [5, 2, 9, 1, 7, 3, 10, 4, 8, 6]))) =
     m_comparisons (StartSorting no_executor 0 0
                      (SortingVisualizer_init [5, 2, 9, 1, 7, 3, 10, 4, 8, 6])) \<and>
   m_comparisons (StartSorting no_executor 0 0
                    (SortingVisualizer_init [5, 2, 9, 1, 7, 3, 10, 4, 8, 6])) = 45"
proof -
  let ?s = "StartSorting no_executor 0 0
              (SortingVisualizer_init [5, 2, 9, 1, 7, 3, 10, 4, 8, 6])"
  let ?ops = "[Op_Update 100000000, Op_SetAnimationSpeed 2, Op_Update 200000000,
               Op_StepBackward, Op_PauseSorting, Op_StartSorting 0 300000000]"
  have a: "m_state ?s \<noteq> Stopped" by (simp add: StartSorting_state)
  have b: "Op_ResetArray \<notin> set ?ops" by simp
  have c: "m_comparisons ?s = 45" by code_simp
  from a b c C1_counters_under_playback[where s = ?s and ops = ?ops and ex = no_executor]
  show ?thesis by blast
qed

text \<open>
  The claim as stated fails on the search controller: the same generated log, played
  by no tick and played by two ticks, shows two different values of \<^verbatim>\<open>m_comparisons\<close>.
\<close>

theorem C1_counterexample:
  "(case StartSearch_clicked exact_probe 0 0 0
           (SearchVisualizer_init SearchAlgorithm_BinarySearch [1, 3, 5, 7, 9] 7) of
      Inr v \<Rightarrow>
        m_comparisons_sv (fold Update_sv [] v) = 0 \<and>
        m_comparisons_sv (fold Update_sv [1000000000, 2000000000] v) = 1
    | Inl e \<Rightarrow> False)"
  by code_simp

text \<open>
  C2 (as amended). Sorting controller: the callback is invoked by \<^verbatim>\<open>StepForward\<close>
  (also when the tick calls it), exactly when that call moves the cursor onto the end
  of the log, which is when it sets the state to \<^verbatim>\<open>Completed\<close>; it is invoked by no
  other operation, in particular not by \<^verbatim>\<open>ResetArray\<close> or \<^verbatim>\<open>PauseSorting\<close>. A started
  run played by ticks, forward steps, pauses, resumes and speed changes invokes it
  once if playback reaches the end of the log and not at all otherwise; stepping back
  from the end and forward again invokes it again. Search controller: \<^verbatim>\<open>StartSearch\<close>
  returns on every array that is not empty, and for Linear, Binary and Interpolation
  Search on the empty array too, and the executor inside it has then invoked the
  callback once, before playback begins; \<^verbatim>\<open>StepSearch\<close>, the "Step" button, the tick and
  \<^verbatim>\<open>ResetSearch\<close> never invoke it. Pathfinding, tree and graph controllers: no invocation
  is made by the tick, the manual step, the pause, the speed change and the reset of
  the pathfinding controller, not even by the \<^verbatim>\<open>StepForward\<close> that sets its state to
  \<^verbatim>\<open>Completed\<close>; none by the search operation, the tick, the manual step, the speed
  change and the two resets of the tree controller; none by \<^verbatim>\<open>ExecuteAlgorithm\<close>,
  \<^verbatim>\<open>ClearGraph\<close> and \<^verbatim>\<open>Update\<close> of the graph controller. Host: the invocations delivered
  to a history of at most 50 records are appended in their order, one record each,
  stamped with the time of day read at the insertion, and the last 50 records are kept.
\<close>

theorem C2_callback_invocations:
  "callbackLog (ResetArray s) = callbackLog s \<and>
   callbackLog (PauseSorting s) = callbackLog s \<and>
   callbackLog (StepBackward s) = callbackLog s \<and>
   callbackLog (SetAnimationSpeed speed s) = callbackLog s \<and>
   callbackLog (StartSorting ex t0 t1 s) = callbackLog s \<and>
   callbackLog (StepForward now s) =
     callbackLog s @
     (if m_performanceCallback s \<and> m_currentStepIndex s < length (m_sortingSteps s) \<and>
         m_currentStepIndex s + 1 = length (m_sortingSteps s)
      then [sorting_report now s] else []) \<and>
   m_state (StepForward now s) =
     (if m_currentStepIndex s < length (m_sortingSteps s) \<and>
         m_currentStepIndex s + 1 = length (m_sortingSteps s)
      then Completed else m_state s) \<and>
   (m_state s \<noteq> Stopped \<and> list_all forward_only ops \<longrightarrow>
      (\<exists>t. callbackLog (run_ops ex ops s) =
         callbackLog s @
         (if m_performanceCallback s \<and> m_currentStepIndex s < length (m_sortingSteps s) \<and>
             m_currentStepIndex (run_ops ex ops s) = length (m_sortingSteps s)
          then [sorting_report t s] else []))) \<and>
   callbackLog_sv (StepSearch now v) = callbackLog_sv v \<and>
   callbackLog_sv (Step_clicked now v) = callbackLog_sv v \<and>
   callbackLog_sv (Update_sv now v) = callbackLog_sv v \<and>
   callbackLog_sv (ResetSearch v) = callbackLog_sv v \<and>
   (m_array_sv v \<noteq> [] \<or>
    m_currentAlgorithm_sv v = SearchAlgorithm_LinearSearch \<or>
    m_currentAlgorithm_sv v = SearchAlgorithm_BinarySearch \<or>
    m_currentAlgorithm_sv v = SearchAlgorithm_InterpolationSearch \<longrightarrow>
      (\<exists>v' c. StartSearch probe t0 t1 v = Inr v' \<and>
         callbackLog_sv v' =
           callbackLog_sv v @ (if m_performanceCallback_sv v then [c] else []))) \<and>
   callbackLog_pf (run_pf_ops pf_ops p) = callbackLog_pf p \<and>
   callbackLog_pf (ResetGrid p) = callbackLog_pf p \<and>
   callbackLog_pf (StepForward_pf p) = callbackLog_pf p \<and>
   m_state_pf (StepForward_pf p) =
     (if m_currentStepIndex_pf p < length (m_animationSteps p) then m_state_pf p
      else Completed) \<and>
   callbackLog_tv (run_tv_ops tv_ops tr) = callbackLog_tv tr \<and>
   callbackLog_tv (Search_clicked t0 t1 tr) = callbackLog_tv tr \<and>
   callbackLog_tv (SearchValue t0 t1 x tr) = callbackLog_tv tr \<and>
   callbackLog_tv (ResetVisualization tr) = callbackLog_tv tr \<and>
   callbackLog_tv (ClearTree tr) = callbackLog_tv tr \<and>
   callbackLog_gv (ExecuteAlgorithm mst g) = callbackLog_gv g \<and>
   callbackLog_gv (ClearGraph g) = callbackLog_gv g \<and>
   callbackLog_gv (Update_gv g) = callbackLog_gv g \<and>
   (length (m_performanceHistory app) \<le> 50 \<longrightarrow>
      m_performanceHistory (deliver calls app) =
        drop (length (m_performanceHistory app) + length calls - 50)
          (m_performanceHistory app @ map (perf_record app) calls))"
proof (intro conjI impI)
  show "callbackLog (ResetArray s) = callbackLog s" by (simp add: ResetArray_cursor)
  show "callbackLog (PauseSorting s) = callbackLog s" by (simp add: PauseSorting_frame)
  show "callbackLog (StepBackward s) = callbackLog s" by (simp add: StepBackward_frame)
  show "callbackLog (SetAnimationSpeed speed s) = callbackLog s"
    by (simp add: SetAnimationSpeed_frame)
  show "callbackLog (StartSorting ex t0 t1 s) = callbackLog s"
    by (rule StartSorting_callbackLog)
  show "callbackLog (StepForward now s) =
     callbackLog s @
     (if m_performanceCallback s \<and> m_currentStepIndex s < length (m_sortingSteps s) \<and>
         m_currentStepIndex s + 1 = length (m_sortingSteps s)
      then [sorting_report now s] else [])"
    by (rule StepForward_callbackLog)
  show "m_state (StepForward now s) =
     (if m_currentStepIndex s < length (m_sortingSteps s) \<and>
         m_currentStepIndex s + 1 = length (m_sortingSteps s)
      then Completed else m_state s)"
    by (rule StepForward_state)
  show "callbackLog_sv (StepSearch now v) = callbackLog_sv v" by (simp add: StepSearch_frame)
  show "callbackLog_sv (Step_clicked now v) = callbackLog_sv v"
    by (simp add: Step_clicked_frame)
  show "callbackLog_sv (Update_sv now v) = callbackLog_sv v" by (simp add: Update_sv_frame)
  show "callbackLog_sv (ResetSearch v) = callbackLog_sv v" by (simp add: ResetSearch_frame)
  show "callbackLog_pf (run_pf_ops pf_ops p) = callbackLog_pf p"
    by (simp add: run_pf_ops_frame)
  show "callbackLog_pf (ResetGrid p) = callbackLog_pf p" by (rule ResetGrid_callbackLog)
  show "callbackLog_pf (StepForward_pf p) = callbackLog_pf p"
    by (simp add: StepForward_pf_frame)
  show "m_state_pf (StepForward_pf p) =
     (if m_currentStepIndex_pf p < length (m_animationSteps p) then m_state_pf p
      else Completed)"
    by (rule StepForward_pf_state)
  show "callbackLog_tv (run_tv_ops tv_ops tr) = callbackLog_tv tr"
    by (simp add: run_tv_ops_frame)
  show "callbackLog_tv (Search_clicked t0 t1 tr) = callbackLog_tv tr"
    by (rule Search_clicked_callbackLog)
  show "callbackLog_tv (SearchValue t0 t1 x tr) = callbackLog_tv tr"
    by (simp add: SearchValue_frame)
  show "callbackLog_tv (ResetVisualization tr) = callbackLog_tv tr"
    by (simp add: ResetVisualization_frame)
  show "callbackLog_tv (ClearTree tr) = callbackLog_tv tr" by (rule ClearTree_callbackLog)
  show "callbackLog_gv (ExecuteAlgorithm mst g) = callbackLog_gv g"
    by (rule ExecuteAlgorithm_callbackLog)
  show "callbackLog_gv (ClearGraph g) = callbackLog_gv g" by (rule ClearGraph_callbackLog)
  show "callbackLog_gv (Update_gv g) = callbackLog_gv g" by (simp add: Update_gv_def)
next
  assume "m_state s \<noteq> Stopped \<and> list_all forward_only ops"
  then have "many_steps s (run_ops ex ops s)" by (simp add: run_ops_many_steps)
  then show "\<exists>t. callbackLog (run_ops ex ops s) =
         callbackLog s @
         (if m_performanceCallback s \<and> m_currentStepIndex s < length (m_sortingSteps s) \<and>
             m_currentStepIndex (run_ops ex ops s) = length (m_sortingSteps s)
          then [sorting_report t s] else [])"
    unfolding many_steps_def by blast
next
  assume a: "m_array_sv v \<noteq> [] \<or>
    m_currentAlgorithm_sv v = SearchAlgorithm_LinearSearch \<or>
    m_currentAlgorithm_sv v = SearchAlgorithm_BinarySearch \<or>
    m_currentAlgorithm_sv v = SearchAlgorithm_InterpolationSearch"
  have "m_currentAlgorithm_sv v = SearchAlgorithm_LinearSearch \<or>
        m_currentAlgorithm_sv v = SearchAlgorithm_BinarySearch \<or>
        m_currentAlgorithm_sv v = SearchAlgorithm_InterpolationSearch \<or>
        (m_array_sv v \<noteq> [] \<and>
         (m_currentAlgorithm_sv v = SearchAlgorithm_ExponentialSearch \<or>
          m_currentAlgorithm_sv v = SearchAlgorithm_JumpSearch))"
    using a by (cases "m_currentAlgorithm_sv v") auto
  then obtain v' where r: "StartSearch probe t0 t1 v = Inr v'"
    using StartSearch_total[of v probe t0 t1] by blast
  from StartSearch_report_any[OF r] r
  show "\<exists>v' c. StartSearch probe t0 t1 v = Inr v' \<and>
         callbackLog_sv v' =
           callbackLog_sv v @ (if m_performanceCallback_sv v then [c] else [])"
    by blast
next
  assume "length (m_performanceHistory app) \<le> 50"
  then show "m_performanceHistory (deliver calls app) =
        drop (length (m_performanceHistory app) + length calls - 50)
          (m_performanceHistory app @ map (perf_record app) calls)"
    by (rule deliver_history)
qed

text \<open>
  The theorem at a Bubble Sort run on \<open>[1,2,3,4,5,6,7,8,9,10]\<close>, whose log has 46
  steps, played to its end by a tick, a pause, a resume and 45 more ticks; at a Linear
  Search for 7 in \<open>[1,3,5,7,9]\<close>; and at two invocations delivered to an empty history.
\<close>

theorem C2_callback_invocations_witness:
  "m_state (StartSorting no_executor 0 0 (SortingVisualizer_init [1, 2, 3, 4, 5, 6, 7, 8, 9, 10]))
     \<noteq> Stopped \<and>
   list_all forward_only
     (Op_Update 200000000 # Op_PauseSorting # Op_StartSorting 300000000 300000000 #
      map (\<lambda>k. Op_Update (int k * 200000000)) [2..<47]) \<and>
   length (callbackLog
     (run_ops no_executor
        (Op_Update 200000000 # Op_PauseSorting # Op_StartSorting 300000000 300000000 #
         map (\<lambda>k. Op_Update (int k * 200000000)) [2..<47])
        (StartSorting no_executor 0 0
           (SortingVisualizer_init [1, 2, 3, 4, 5, 6, 7, 8, 9, 10])))) = 1 \<and>
   m_array_sv (SearchVisualizer_init SearchAlgorithm_LinearSearch [1, 3, 5, 7, 9] 7) \<noteq> [] \<and>
   (\<exists>w. StartSearch exact_probe 0 0
           (SearchVisualizer_init SearchAlgorithm_LinearSearch [1, 3, 5, 7, 9] 7) = Inr w \<and>
        length (callbackLog_sv w) = 1) \<and>
   length (m_performanceHistory
     \<lparr>m_currentVisualizer = Sorting, m_sortingVisualizer = None,
      m_performanceHistory = []\<rparr>) \<le> 50 \<and>
   map timestamp (m_performanceHistory
     (deliver
        [(\<lparr>tm_hour = 9, tm_min = 5, tm_sec = 0\<rparr>,
          \<lparr>call_name = ''Bubble Sort'', call_time = 200, call_comparisons = 0,
           call_swaps = 0\<rparr>),
         (\<lparr>tm_hour = 9, tm_min = 5, tm_sec = 2\<rparr>,
          \<lparr>call_name = ''Bubble Sort'', call_time = 200, call_comparisons = 0,
           call_swaps = 0\<rparr>)]
        \<lparr>m_currentVisualizer = Sorting, m_sortingVisualizer = None,
         m_performanceHistory = []\<rparr>)) = [''09:05:00'', ''09:05:02'']"
proof -
  let ?s = "StartSorting no_executor 0 0
              (SortingVisualizer_init [1, 2, 3, 4, 5, 6, 7, 8, 9, 10])"
  let ?ops = "Op_Update 200000000 # Op_PauseSorting # Op_StartSorting 300000000 300000000 #
              map (\<lambda>k. Op_Update (int k * 200000000)) [2..<47]"
  let ?v = "SearchVisualizer_init SearchAlgorithm_LinearSearch [1, 3, 5, 7, 9] 7"
  let ?app = "\<lparr>m_currentVisualizer = Sorting, m_sortingVisualizer = None,
               m_performanceHistory = []\<rparr>"
  let ?calls = "[(\<lparr>tm_hour = 9, tm_min = 5, tm_sec = 0\<rparr>,
          \<lparr>call_name = ''Bubble Sort'', call_time = 200, call_comparisons = 0,
           call_swaps = 0\<rparr>),
         (\<lparr>tm_hour = 9, tm_min = 5, tm_sec = 2\<rparr>,
          \<lparr>call_name = ''Bubble Sort'', call_time = 200, call_comparisons = 0,
           call_swaps = 0\<rparr>)]"
  have a: "m_state ?s \<noteq> Stopped" by (simp add: StartSorting_state)
  have b: "list_all forward_only ?ops"
    by (auto simp add: forward_only_def list_all_iff)
  have c: "callbackLog ?s = []" by code_simp
  have d: "callbackLog_sv ?v = []" "m_performanceCallback_sv ?v" "m_array_sv ?v \<noteq> []"
    by (simp_all add: SearchVisualizer_init_def)
  have e: "length (m_performanceHistory ?app) \<le> 50" by simp
  have f: "m_performanceCallback ?s \<and> m_currentStepIndex ?s < length (m_sortingSteps ?s) \<and>
           m_currentStepIndex (run_ops no_executor ?ops ?s) = length (m_sortingSteps ?s)"
    by code_simp
  note th = C2_callback_invocations[where s = ?s and ex = no_executor and ops = ?ops
      and v = ?v and probe = exact_probe and ?t0.0 = 0 and ?t1.0 = 0 and app = ?app
      and calls = ?calls and speed = 1 and now = 0
      and p = PathfindingVisualizer_init and pf_ops = "[]"
      and tr = TreeVisualizer_init and tv_ops = "[]" and x = 0
      and mst = "\<lambda>a ns es w. (ns, es, w)"
      and g = "\<lparr>m_nodes = [], m_edges = [], m_currentAlgorithm_gv = KruskalMST,
                m_mstWeight = 0, m_componentsCount = 0, callbackLog_gv = []\<rparr>"]
  have r1: "m_state ?s \<noteq> Stopped \<and> list_all forward_only ?ops \<longrightarrow>
      (\<exists>t. callbackLog (run_ops no_executor ?ops ?s) =
         callbackLog ?s @
         (if m_performanceCallback ?s \<and> m_currentStepIndex ?s < length (m_sortingSteps ?s) \<and>
             m_currentStepIndex (run_ops no_executor ?ops ?s) = length (m_sortingSteps ?s)
          then [sorting_report t ?s] else []))"
    using th by (elim conjE)
  have r2: "m_array_sv ?v \<noteq> [] \<or>
      m_currentAlgorithm_sv ?v = SearchAlgorithm_LinearSearch \<or>
      m_currentAlgorithm_sv ?v = SearchAlgorithm_BinarySearch \<or>
      m_currentAlgorithm_sv ?v = SearchAlgorithm_InterpolationSearch \<longrightarrow>
      (\<exists>v' c. StartSearch exact_probe 0 0 ?v = Inr v' \<and>
         callbackLog_sv v' =
           callbackLog_sv ?v @ (if m_performanceCallback_sv ?v then [c] else []))"
    using th by (elim conjE)
  have r3: "length (m_performanceHistory ?app) \<le> 50 \<longrightarrow>
      m_performanceHistory (deliver ?calls ?app) =
        drop (length (m_performanceHistory ?app) + length ?calls - 50)
          (m_performanceHistory ?app @ map (perf_record ?app) ?calls)"
    using th by (elim conjE)
  from r1 a b obtain t where "callbackLog (run_ops no_executor ?ops ?s) =
         callbackLog ?s @
         (if m_performanceCallback ?s \<and> m_currentStepIndex ?s < length (m_sortingSteps ?s) \<and>
             m_currentStepIndex (run_ops no_executor ?ops ?s) = length (m_sortingSteps ?s)
          then [sorting_report t ?s] else [])"
    by blast
  with c f have g: "length (callbackLog (run_ops no_executor ?ops ?s)) = 1"
    by simp
  from r2 d obtain w k where "StartSearch exact_probe 0 0 ?v = Inr w"
    "callbackLog_sv w = [k]"
    by auto
  then have h: "\<exists>w. StartSearch exact_probe 0 0 ?v = Inr w \<and> length (callbackLog_sv w) = 1"
    by auto
  from r3 e have "m_performanceHistory (deliver ?calls ?app) = map (perf_record ?app) ?calls"
    by simp
  then have i: "map timestamp (m_performanceHistory (deliver ?calls ?app))
                  = [''09:05:00'', ''09:05:02'']"
    by (simp add: perf_record_def format_timestamp_def fmt_02d_def to_string_def
          digit_char_def)
  from a b g d(3) h e i show ?thesis by blast
qed

text \<open>
  The claim as stated fails in four ways. One sorting run (Bubble Sort on
  \<open>[1,2,3,4,5,6,7,8,9,10]\<close>, played by 46 ticks) invokes the callback twice when the
  user steps back from the end of the log and forward again. A search run has invoked
  the callback when \<^verbatim>\<open>StartSearch\<close> returns, while the controller is running and not
  yet complete. A freshly constructed pathfinding controller that the "Step" button
  brings into the state \<^verbatim>\<open>Completed\<close>, and a tree search stepped to the end of its log,
  have invoked no callback. Two records inserted one second before and one second after
  midnight carry the timestamps 23:59:59 and 00:00:01, in that order.
\<close>

theorem C2_counterexample:
  "(let r = run_ops no_executor (map (\<lambda>k. Op_Update (int k * 200000000)) [1..<47])
              (StartSorting no_executor 0 0
                 (SortingVisualizer_init [1, 2, 3, 4, 5, 6, 7, 8, 9, 10]))
    in m_state r = Completed \<and> length (callbackLog r) = 1 \<and>
       length (callbackLog (StepForward 10000000000 (StepBackward r))) = 2) \<and>
   (case StartSearch_clicked exact_probe 0 0 0
           (SearchVisualizer_init SearchAlgorithm_BinarySearch [1, 3, 5, 7, 9] 7) of
      Inr w \<Rightarrow> length (callbackLog_sv w) = 1 \<and> m_isRunning w \<and> \<not> m_isComplete w \<and>
               m_currentStep w = 0
    | Inl e \<Rightarrow> False) \<and>
   m_state_pf (StepForward_pf PathfindingVisualizer_init) = Completed \<and>
   callbackLog_pf (StepForward_pf PathfindingVisualizer_init) = [] \<and>
   (let r = Step_clicked_tv (Step_clicked_tv
              (Search_clicked 0 0
                 (TreeVisualizer_init\<lparr>m_currentOperation := TreeOperation_Search\<rparr>)))
    in length (m_steps_tv r) = 2 \<and> m_currentStep_tv r = 2 \<and> \<not> m_isComplete_tv r \<and>
       callbackLog_tv r = []) \<and>
   map timestamp (m_performanceHistory
     (deliver
        [(\<lparr>tm_hour = 23, tm_min = 59, tm_sec = 59\<rparr>,
          \<lparr>call_name = ''Bubble Sort'', call_time = 200, call_comparisons = 0,
           call_swaps = 0\<rparr>),
         (\<lparr>tm_hour = 0, tm_min = 0, tm_sec = 1\<rparr>,
          \<lparr>call_name = ''Bubble Sort'', call_time = 200, call_comparisons = 0,
           call_swaps = 0\<rparr>)]
        \<lparr>m_currentVisualizer = Sorting, m_sortingVisualizer = None,
         m_performanceHistory = []\<rparr>)) = [''23:59:59'', ''00:00:01'']"
  by code_simp

text \<open>
  C3. Bubble Sort on \<open>[3,1,2]\<close> records, in order: the comparison of (0,1), the swap
  giving \<open>[1,3,2]\<close>, the comparison of (1,2), the swap giving \<open>[1,2,3]\<close>, the comparison
  of (0,1) with no swap after it, and the terminal step; the counters end at 3
  comparisons and 2 swaps.
\<close>

theorem C3_bubble_sort_312:
  "m_sortingSteps (BubbleSort (SortingVisualizer_init [3, 1, 2])) =
     [\<lparr>array = [3, 1, 2], compareIndex1 = 0, compareIndex2 = 1, pivotIndex = - 1,
       swapped = False, description = ''Comparing elements at positions 0 and 1''\<rparr>,
      \<lparr>array = [1, 3, 2], compareIndex1 = 0, compareIndex2 = 1, pivotIndex = - 1,
       swapped = True, description = ''Swapping elements at positions 0 and 1''\<rparr>,
      \<lparr>array = [1, 3, 2], compareIndex1 = 1, compareIndex2 = 2, pivotIndex = - 1,
       swapped = False, description = ''Comparing elements at positions 1 and 2''\<rparr>,
      \<lparr>array = [1, 2, 3], compareIndex1 = 1, compareIndex2 = 2, pivotIndex = - 1,
       swapped = True, description = ''Swapping elements at positions 1 and 2''\<rparr>,
      \<lparr>array = [1, 2, 3], compareIndex1 = 0, compareIndex2 = 1, pivotIndex = - 1,
       swapped = False, description = ''Comparing elements at positions 0 and 1''\<rparr>,
      \<lparr>array = [1, 2, 3], compareIndex1 = - 1, compareIndex2 = - 1, pivotIndex = - 1,
       swapped = False, description = ''Bubble sort completed!''\<rparr>]
   \<and> m_comparisons (BubbleSort (SortingVisualizer_init [3, 1, 2])) = 3
   \<and> m_swaps (BubbleSort (SortingVisualizer_init [3, 1, 2])) = 2"
  by code_simp

text \<open>
  C4 (as amended). Binary Search for 7 in \<open>[1,3,5,7,9]\<close> records six steps: the
  opening step, the comparison at index 2 (value 5), the narrowing to the right half,
  the comparison at index 3 (value 7), the announcement of the find, and the terminal
  step with \<^verbatim>\<open>foundIndex\<close> 3. Exactly two of them are classified as comparisons. The
  displayed counter \<^verbatim>\<open>m_comparisons\<close> is 0 when the executor has run and is 2 once the
  log has been played to its end.
\<close>

theorem C4_binary_search_7:
  "(case StartSearch_clicked probe 0 0 0
           (SearchVisualizer_init SearchAlgorithm_BinarySearch [1, 3, 5, 7, 9] 7) of
      Inr v \<Rightarrow>
        m_steps v =
          [SearchStep_default\<lparr>step_description := ''Starting Binary Search'',
             lowIndex := 0, highIndex := 4\<rparr>,
           SearchStep_default
             \<lparr>step_description := ''Checking middle element at index 2 (value: 5)'',
              currentIndex := 2, lowIndex := 0, highIndex := 4, isComparison := True\<rparr>,
           SearchStep_default
             \<lparr>step_description := ''Target is greater than 5, searching right half'',
              currentIndex := 2, lowIndex := 0, highIndex := 4\<rparr>,
           SearchStep_default
             \<lparr>step_description := ''Checking middle element at index 3 (value: 7)'',
              currentIndex := 3, lowIndex := 3, highIndex := 4, isComparison := True\<rparr>,
           SearchStep_default\<lparr>step_description := ''Found target 7 at index 3!'',
             currentIndex := 3, lowIndex := 3, highIndex := 4\<rparr>,
           SearchStep_default\<lparr>step_description := ''Search completed successfully!'',
             foundIndex := 3, isFound := True\<rparr>] \<and>
        length (filter isComparison (m_steps v)) = 2 \<and>
        m_comparisons_sv v = 0 \<and>
        m_comparisons_sv
          (fold Update_sv [1000000000, 2000000000, 3000000000, 4000000000, 5000000000,
                           6000000000] v) = 2 \<and>
        m_isComplete
          (fold Update_sv [1000000000, 2000000000, 3000000000, 4000000000, 5000000000,
                           6000000000] v) \<and>
        m_foundIndex
          (fold Update_sv [1000000000, 2000000000, 3000000000, 4000000000, 5000000000,
                           6000000000] v) = 3
    | Inl e \<Rightarrow> False)"
  by code_simp

text \<open>
  The claim as stated fails: when the executor has run, no counter of the controller
  holds 2, and the first recorded step is not a comparison.
\<close>

theorem C4_counterexample:
  "(case StartSearch_clicked exact_probe 0 0 0
           (SearchVisualizer_init SearchAlgorithm_BinarySearch [1, 3, 5, 7, 9] 7) of
      Inr v \<Rightarrow>
        m_comparisons_sv v = 0 \<and> m_totalComparisons_sv v = 0 \<and>
        \<not> isComparison (hd (m_steps v)) \<and> length (m_steps v) = 6
    | Inl e \<Rightarrow> False)"
  by code_simp

text \<open>
  C5 (as amended). Linear Search on an empty array records exactly one step, the
  "Target not found in array" step, which is neither a comparison nor a find.
  \<^verbatim>\<open>StartSearch\<close> then leaves the controller running (\<^verbatim>\<open>m_isRunning\<close> set,
  \<^verbatim>\<open>m_isComplete\<close> clear) with the cursor at 0; it becomes complete, and stops running,
  when that one step is played by the first \<^verbatim>\<open>StepSearch\<close>.
\<close>

theorem C5_linear_search_empty:
  "m_array_sv s = [] \<and> m_currentAlgorithm_sv s = SearchAlgorithm_LinearSearch \<longrightarrow>
     (\<exists>v. StartSearch probe t0 t1 s = Inr v \<and>
        m_steps v = [SearchStep_default\<lparr>step_description := ''Target not found in array''\<rparr>] \<and>
        m_currentStep v = 0 \<and> m_isRunning v \<and> \<not> m_isComplete v \<and>
        m_currentStep (StepSearch now v) = 1 \<and>
        m_isComplete (StepSearch now v) \<and> \<not> m_isRunning (StepSearch now v) \<and>
        \<not> m_targetFound (StepSearch now v))"
proof (intro impI, elim conjE)
  assume a: "m_array_sv s = []" "m_currentAlgorithm_sv s = SearchAlgorithm_LinearSearch"
  show "\<exists>v. StartSearch probe t0 t1 s = Inr v \<and>
        m_steps v = [SearchStep_default\<lparr>step_description := ''Target not found in array''\<rparr>] \<and>
        m_currentStep v = 0 \<and> m_isRunning v \<and> \<not> m_isComplete v \<and>
        m_currentStep (StepSearch now v) = 1 \<and>
        m_isComplete (StepSearch now v) \<and> \<not> m_isRunning (StepSearch now v) \<and>
        \<not> m_targetFound (StepSearch now v)"
    unfolding StartSearch_linear_empty[OF a]
    by (cases "m_performanceCallback_sv s")
       (simp_all add: CompleteSearch_def ResetSearch_def StepSearch_def Let_def
          SearchStep_default_def)
qed

theorem C5_linear_search_empty_witness:
  "m_array_sv (SearchVisualizer_init SearchAlgorithm_LinearSearch [] 7) = [] \<and>
   m_currentAlgorithm_sv (SearchVisualizer_init SearchAlgorithm_LinearSearch [] 7)
     = SearchAlgorithm_LinearSearch \<and>
   (\<exists>v. StartSearch exact_probe 0 0
           (SearchVisualizer_init SearchAlgorithm_LinearSearch [] 7) = Inr v \<and>
        length (m_steps v) = 1 \<and> m_isRunning v \<and> \<not> m_isComplete v \<and>
        m_isComplete (StepSearch 1000000000 v))"
proof -
  have a: "m_array_sv (SearchVisualizer_init SearchAlgorithm_LinearSearch [] 7) = [] \<and>
           m_currentAlgorithm_sv (SearchVisualizer_init SearchAlgorithm_LinearSearch [] 7)
             = SearchAlgorithm_LinearSearch"
    by (simp add: SearchVisualizer_init_def)
  from a C5_linear_search_empty[of "SearchVisualizer_init SearchAlgorithm_LinearSearch [] 7"
         exact_probe 0 0 1000000000]
  obtain v where
    "StartSearch exact_probe 0 0
       (SearchVisualizer_init SearchAlgorithm_LinearSearch [] 7) = Inr v"
    "m_steps v = [SearchStep_default\<lparr>step_description := ''Target not found in array''\<rparr>]"
    "m_isRunning v" "\<not> m_isComplete v" "m_isComplete (StepSearch 1000000000 v)"
    by blast
  then have "StartSearch exact_probe 0 0
               (SearchVisualizer_init SearchAlgorithm_LinearSearch [] 7) = Inr v \<and>
        length (m_steps v) = 1 \<and> m_isRunning v \<and> \<not> m_isComplete v \<and>
        m_isComplete (StepSearch 1000000000 v)"
    by simp
  with a show ?thesis by blast
qed

text \<open>
  The claim as stated fails: after the first start on the empty array the controller
  is running and not complete.
\<close>

theorem C5_counterexample:
  "(case StartSearch exact_probe 0 0
           (SearchVisualizer_init SearchAlgorithm_LinearSearch [] 7) of
      Inr v \<Rightarrow> length (m_steps v) = 1 \<and> m_isRunning v \<and> \<not> m_isComplete v
    | Inl e \<Rightarrow> False)"
  by code_simp

text \<open>
  C6 (as amended). When \<^verbatim>\<open>StepForward\<close> is enabled at cursor \<open>c\<close>, \<^verbatim>\<open>StepForward\<close>
  followed by \<^verbatim>\<open>StepBackward\<close> returns the cursor to \<open>c\<close> and leaves the log as it
  was; the visible array is then the snapshot of step \<open>c\<close>, the one the forward step
  has just applied, whatever was visible before the two calls. The state is
  \<^verbatim>\<open>Paused\<close> when the forward step had completed the log.
\<close>

theorem C6_forward_then_backward:
  "m_sortingSteps s \<noteq> [] \<and> m_currentStepIndex s < length (m_sortingSteps s) \<longrightarrow>
     m_currentStepIndex (StepBackward (StepForward now s)) = m_currentStepIndex s \<and>
     m_array (StepBackward (StepForward now s)) =
       array (m_sortingSteps s ! m_currentStepIndex s) \<and>
     m_sortingSteps (StepBackward (StepForward now s)) = m_sortingSteps s \<and>
     m_state (StepBackward (StepForward now s)) =
       (if m_currentStepIndex s + 1 = length (m_sortingSteps s) \<or> m_state s = Completed
        then Paused else m_state s)"
  by (auto simp add: StepForward_def StepBackward_def ExecuteCurrentStep_def Let_def)

theorem C6_forward_then_backward_witness:
  "m_sortingSteps (StepForward 0 (StartSorting no_executor 0 0 (SortingVisualizer_init [3, 1, 2])))
     \<noteq> [] \<and>
   m_currentStepIndex
     (StepForward 0 (StartSorting no_executor 0 0 (SortingVisualizer_init [3, 1, 2]))) = 1 \<and>
   length (m_sortingSteps
     (StepForward 0 (StartSorting no_executor 0 0 (SortingVisualizer_init [3, 1, 2])))) = 6 \<and>
   m_currentStepIndex
     (StepBackward (StepForward 0
       (StepForward 0 (StartSorting no_executor 0 0 (SortingVisualizer_init [3, 1, 2]))))) = 1"
proof -
  have a: "m_sortingSteps
      (StepForward 0 (StartSorting no_executor 0 0 (SortingVisualizer_init [3, 1, 2]))) \<noteq> []"
    by code_simp
  have b: "m_currentStepIndex
      (StepForward 0 (StartSorting no_executor 0 0 (SortingVisualizer_init [3, 1, 2]))) = 1"
    by code_simp
  have c: "length (m_sortingSteps
      (StepForward 0 (StartSorting no_executor 0 0 (SortingVisualizer_init [3, 1, 2])))) = 6"
    by code_simp
  from a b c
    C6_forward_then_backward[of
      "StepForward 0 (StartSorting no_executor 0 0 (SortingVisualizer_init [3, 1, 2]))" 0]
  show ?thesis by simp
qed

text \<open>
  The claim as stated fails: at cursor 1 of the Bubble Sort log of \<open>[3,1,2]\<close> the
  visible array is \<open>[3,1,2]\<close>; after a step forward and a step back the cursor is 1
  again and the visible array is \<open>[1,3,2]\<close>.
\<close>

theorem C6_counterexample:
  "m_currentStepIndex
     (StepForward 0 (StartSorting no_executor 0 0 (SortingVisualizer_init [3, 1, 2]))) = 1 \<and>
   m_array (StepForward 0 (StartSorting no_executor 0 0 (SortingVisualizer_init [3, 1, 2])))
     = [3, 1, 2] \<and>
   m_currentStepIndex
     (StepBackward (StepForward 0
       (StepForward 0 (StartSorting no_executor 0 0 (SortingVisualizer_init [3, 1, 2]))))) = 1 \<and>
   m_array
     (StepBackward (StepForward 0
       (StepForward 0 (StartSorting no_executor 0 0 (SortingVisualizer_init [3, 1, 2])))))
     = [1, 3, 2]"
  by code_simp

text \<open>
  C7. Over any sequence of ticks the cursor never decreases; and from a state whose
  cursor is within \<open>[0, log.length]\<close>, the cursor is within \<open>[0, log.length]\<close> after
  any sequence of ticks, manual steps, pauses, starts, speed changes and resets (the
  lower bound is the type of the cursor).
\<close>

theorem C7_cursor_monotone_and_bounded:
  "m_currentStepIndex s \<le> m_currentStepIndex (fold Update nows s) \<and>
   (m_currentStepIndex s \<le> length (m_sortingSteps s) \<longrightarrow>
      m_currentStepIndex (run_ops ex ops s) \<le> length (m_sortingSteps (run_ops ex ops s)))"
  using ticks_monotone[of s nows] run_ops_cursor[of s ex ops] by simp

theorem C7_cursor_monotone_and_bounded_witness:
  "m_currentStepIndex (SortingVisualizer_init [3, 1, 2])
     \<le> length (m_sortingSteps (SortingVisualizer_init [3, 1, 2])) \<and>
   m_currentStepIndex
     (run_ops no_executor
        [Op_StartSorting 0 0, Op_Update 100000000, Op_Update 200000000, Op_StepBackward,
         Op_StepForward 0, Op_StepForward 0]
        (SortingVisualizer_init [3, 1, 2]))
     \<le> length (m_sortingSteps
          (run_ops no_executor
             [Op_StartSorting 0 0, Op_Update 100000000, Op_Update 200000000, Op_StepBackward,
              Op_StepForward 0, Op_StepForward 0]
             (SortingVisualizer_init [3, 1, 2]))) \<and>
   m_currentStepIndex
     (run_ops no_executor
        [Op_StartSorting 0 0, Op_Update 100000000, Op_Update 200000000, Op_StepBackward,
         Op_StepForward 0, Op_StepForward 0]
        (SortingVisualizer_init [3, 1, 2])) = 3"
proof -
  have a: "m_currentStepIndex (SortingVisualizer_init [3, 1, 2])
             \<le> length (m_sortingSteps (SortingVisualizer_init [3, 1, 2]))"
    by (simp add: SortingVisualizer_init_def)
  have b: "m_currentStepIndex
     (run_ops no_executor
        [Op_StartSorting 0 0, Op_Update 100000000, Op_Update 200000000, Op_StepBackward,
         Op_StepForward 0, Op_StepForward 0]
        (SortingVisualizer_init [3, 1, 2])) = 3"
    by code_simp
  from a b
    C7_cursor_monotone_and_bounded[of "SortingVisualizer_init [3, 1, 2]" "[]" no_executor
      "[Op_StartSorting 0 0, Op_Update 100000000, Op_Update 200000000, Op_StepBackward,
        Op_StepForward 0, Op_StepForward 0]"]
  show ?thesis by simp
qed

text \<open>
  C8 (as amended). \<^verbatim>\<open>StartPathfinding\<close> with the start cell or the end cell unset
  returns before any executor is invoked and leaves the playback state, the grid and
  every other field unchanged. The method is \<^verbatim>\<open>void\<close>: nothing is handed back to the
  host, neither a boolean nor a change of state.
\<close>

theorem C8_start_without_endpoints:
  "m_startCell s = None \<or> m_endCell s = None \<longrightarrow> StartPathfinding ex t0 t1 s = ((), s)"
  by (simp add: StartPathfinding_def)

text \<open>The theorem with an executor that would mark the run completed, had it been called.\<close>

theorem C8_start_without_endpoints_witness:
  "m_endCell (PathfindingVisualizer_init\<lparr>m_endCell := None\<rparr>) = None \<and>
   StartPathfinding (\<lambda>a s. s\<lparr>m_state_pf := Completed\<rparr>) 0 5000000
     (PathfindingVisualizer_init\<lparr>m_endCell := None\<rparr>)
   = ((), PathfindingVisualizer_init\<lparr>m_endCell := None\<rparr>)"
  using C8_start_without_endpoints[of "PathfindingVisualizer_init\<lparr>m_endCell := None\<rparr>"
            "(\<lambda>a s. s\<lparr>m_state_pf := Completed\<rparr>)" 0 5000000]
  by simp

text \<open>
  The claim as stated fails in its last part: a rejected start hands back the unit
  value and the unchanged controller, and an accepted start (here on the freshly
  constructed controller, whose cells are both set) hands back the same unit value.
\<close>

theorem C8_counterexample:
  "StartPathfinding (\<lambda>a s. s) 0 0 (PathfindingVisualizer_init\<lparr>m_startCell := None\<rparr>)
      = ((), PathfindingVisualizer_init\<lparr>m_startCell := None\<rparr>) \<and>
   fst (StartPathfinding (\<lambda>a s. s) 0 0 (PathfindingVisualizer_init\<lparr>m_startCell := None\<rparr>))
      = fst (StartPathfinding (\<lambda>a s. s) 0 0 PathfindingVisualizer_init) \<and>
   m_startCell PathfindingVisualizer_init \<noteq> None \<and>
   m_endCell PathfindingVisualizer_init \<noteq> None"
  by (simp add: StartPathfinding_def PathfindingVisualizer_init_def InitializeGrid_def Let_def)

text \<open>
  C9. The history never holds more than 50 records: an insertion into a history of at
  most 50 records leaves at most 50, namely the last 50 of the old records followed by
  the new one, in their order (so the oldest record, and only it, is dropped when the
  history was full); and so does any sequence of insertions.
\<close>

theorem C9_history_bounded_fifo:
  "length (m_performanceHistory app) \<le> 50 \<longrightarrow>
     (let h' = m_performanceHistory (RecordAlgorithmPerformance now n t c w app);
          every = m_performanceHistory app @
                [\<lparr>name = n, executionTime = t, comparisons = c, swaps = w,
                  memoryUsage = memory_estimate app, timestamp = format_timestamp now\<rparr>]
      in length h' \<le> 50 \<and> h' = drop (length every - 50) every) \<and>
     length (m_performanceHistory (deliver calls app)) \<le> 50"
proof (intro impI conjI)
  assume le: "length (m_performanceHistory app) \<le> 50"
  show "length (m_performanceHistory (deliver calls app)) \<le> 50"
    using le by (rule deliver_bound)
  show "let h' = m_performanceHistory (RecordAlgorithmPerformance now n t c w app);
          every = m_performanceHistory app @
                [\<lparr>name = n, executionTime = t, comparisons = c, swaps = w,
                  memoryUsage = memory_estimate app, timestamp = format_timestamp now\<rparr>]
      in length h' \<le> 50 \<and> h' = drop (length every - 50) every"
  proof (cases "length (m_performanceHistory app) = 50")
    case True
    then have "m_performanceHistory app \<noteq> []" by auto
    with True show ?thesis by (simp add: history_step Let_def drop_Suc tl_append2)
  next
    case False
    with le show ?thesis by (simp add: history_step Let_def)
  qed
qed


text \<open>
  The theorem at a full history: the record numbered 0 is dropped, the records 1 to 49
  stay in their order, and the new record is last.
\<close>

theorem C9_history_bounded_fifo_witness:
  "length (m_performanceHistory full_history_example) \<le> 50 \<and>
   length (m_performanceHistory
     (RecordAlgorithmPerformance \<lparr>tm_hour = 12, tm_min = 0, tm_sec = 7\<rparr>
        ''Bubble Sort'' 640 3 2 full_history_example)) \<le> 50 \<and>
   map comparisons (m_performanceHistory
     (RecordAlgorithmPerformance \<lparr>tm_hour = 12, tm_min = 0, tm_sec = 7\<rparr>
        ''Bubble Sort'' 640 3 2 full_history_example)) = map int [1..<50] @ [3] \<and>
   timestamp (last (m_performanceHistory
     (RecordAlgorithmPerformance \<lparr>tm_hour = 12, tm_min = 0, tm_sec = 7\<rparr>
        ''Bubble Sort'' 640 3 2 full_history_example))) = ''12:00:07''"
proof -
  have a: "length (m_performanceHistory full_history_example) \<le> 50"
    by (simp add: full_history_example_def)
  have b: "map comparisons (m_performanceHistory
     (RecordAlgorithmPerformance \<lparr>tm_hour = 12, tm_min = 0, tm_sec = 7\<rparr>
        ''Bubble Sort'' 640 3 2 full_history_example)) = map int [1..<50] @ [3]"
    by code_simp
  have c: "timestamp (last (m_performanceHistory
     (RecordAlgorithmPerformance \<lparr>tm_hour = 12, tm_min = 0, tm_sec = 7\<rparr>
        ''Bubble Sort'' 640 3 2 full_history_example))) = ''12:00:07''"
    by code_simp
  from a b c
    C9_history_bounded_fifo[of full_history_example "\<lparr>tm_hour = 12, tm_min = 0, tm_sec = 7\<rparr>"
      "''Bubble Sort''" 640 3 2 "[]"]
  show ?thesis by (simp add: Let_def)
qed

text \<open>
  C10. A search started from the "Start Search" button with Binary or Interpolation
  Search selected, on any array, or with Exponential or Jump Search selected, on an
  array that is not empty, returns, and has then delivered exactly the invocations it
  had delivered before and one more (none if no callback is set or the target is -1);
  that one carries 0 comparisons. For Interpolation Search this holds whatever the
  floating-point probe delivers. Linear Search can deliver another value: on
  \<open>[1,3,5,7,9]\<close> with target 7 it delivers 4.
\<close>

theorem C10_only_linear_counts:
  "(m_currentAlgorithm_sv s = SearchAlgorithm_BinarySearch \<or>
    m_currentAlgorithm_sv s = SearchAlgorithm_InterpolationSearch \<or>
    (m_array_sv s \<noteq> [] \<and>
     (m_currentAlgorithm_sv s = SearchAlgorithm_ExponentialSearch \<or>
      m_currentAlgorithm_sv s = SearchAlgorithm_JumpSearch)) \<longrightarrow>
      (\<exists>s'. StartSearch_clicked probe ts t0 t1 s = Inr s' \<and>
         callbackLog_sv s' =
           callbackLog_sv s @
           (if m_performanceCallback_sv s \<and> m_targetValue s \<noteq> - 1
            then [\<lparr>call_name = GetAlgorithmName_sv (m_currentAlgorithm_sv s),
                   call_time = duration_cast_ms (t1 - ts),
                   call_comparisons = 0, call_swaps = 0\<rparr>]
            else []))) \<and>
   (case StartSearch_clicked probe 0 0 0
           (SearchVisualizer_init SearchAlgorithm_LinearSearch [1, 3, 5, 7, 9] 7) of
      Inr v \<Rightarrow> map call_comparisons (callbackLog_sv v) = [4]
    | Inl e \<Rightarrow> False)"
proof (intro conjI impI)
  assume a: "m_currentAlgorithm_sv s = SearchAlgorithm_BinarySearch \<or>
    m_currentAlgorithm_sv s = SearchAlgorithm_InterpolationSearch \<or>
    (m_array_sv s \<noteq> [] \<and>
     (m_currentAlgorithm_sv s = SearchAlgorithm_ExponentialSearch \<or>
      m_currentAlgorithm_sv s = SearchAlgorithm_JumpSearch))"
  then have nl: "m_currentAlgorithm_sv s \<noteq> SearchAlgorithm_LinearSearch" by auto
  from a obtain s' where r: "StartSearch_clicked probe ts t0 t1 s = Inr s'"
    using StartSearch_clicked_total[of s probe ts t0 t1] by blast
  have "callbackLog_sv s' =
        callbackLog_sv s @
        (if m_performanceCallback_sv s \<and> m_targetValue s \<noteq> - 1
         then [\<lparr>call_name = GetAlgorithmName_sv (m_currentAlgorithm_sv s),
                call_time = duration_cast_ms (t1 - ts),
                call_comparisons = 0, call_swaps = 0\<rparr>]
         else [])"
  proof (cases "m_targetValue s = - 1")
    case True
    with r show ?thesis by (simp add: StartSearch_clicked_def)
  next
    case False
    define s1 where "s1 = ResetSearch (s\<lparr>m_searchStartTime := ts, m_totalComparisons_sv := 0\<rparr>)"
    from False r have r1: "StartSearch probe t0 t1 s1 = Inr s'"
      by (simp add: StartSearch_clicked_def s1_def)
    have alg: "m_currentAlgorithm_sv s1 \<noteq> SearchAlgorithm_LinearSearch"
      using nl by (simp add: s1_def ResetSearch_def)
    from StartSearch_report_nonlinear[OF alg r1]
    have "callbackLog_sv s' = callbackLog_sv s1 @ reported t1 s1" by simp
    with False show ?thesis
      by (simp add: s1_def ResetSearch_def reported_def)
  qed
  with r show "\<exists>s'. StartSearch_clicked probe ts t0 t1 s = Inr s' \<and>
         callbackLog_sv s' =
           callbackLog_sv s @
           (if m_performanceCallback_sv s \<and> m_targetValue s \<noteq> - 1
            then [\<lparr>call_name = GetAlgorithmName_sv (m_currentAlgorithm_sv s),
                   call_time = duration_cast_ms (t1 - ts),
                   call_comparisons = 0, call_swaps = 0\<rparr>]
            else [])"
    by blast
next
  show "(case StartSearch_clicked probe 0 0 0
           (SearchVisualizer_init SearchAlgorithm_LinearSearch [1, 3, 5, 7, 9] 7) of
      Inr v \<Rightarrow> map call_comparisons (callbackLog_sv v) = [4]
    | Inl e \<Rightarrow> False)"
    by code_simp
qed

text \<open>
  The theorem at the Interpolation Search for 3 in \<open>[3,3,3,3,3]\<close>, where the quotient
  of the probe is \<^verbatim>\<open>0.0 / 0\<close>, and at the Binary Search for 7 in \<open>[1,3,5,7,9]\<close>.
\<close>

theorem C10_only_linear_counts_witness:
  "m_currentAlgorithm_sv
     (SearchVisualizer_init SearchAlgorithm_InterpolationSearch [3, 3, 3, 3, 3] 3)
     = SearchAlgorithm_InterpolationSearch \<and>
   (\<exists>v. StartSearch_clicked exact_probe 0 0 0
           (SearchVisualizer_init SearchAlgorithm_InterpolationSearch [3, 3, 3, 3, 3] 3)
         = Inr v \<and>
        callbackLog_sv v =
          [\<lparr>call_name = ''Interpolation Search'', call_time = 0, call_comparisons = 0,
            call_swaps = 0\<rparr>]) \<and>
   m_currentAlgorithm_sv (SearchVisualizer_init SearchAlgorithm_BinarySearch [1, 3, 5, 7, 9] 7)
     = SearchAlgorithm_BinarySearch \<and>
   (\<exists>v. StartSearch_clicked exact_probe 0 0 0
           (SearchVisualizer_init SearchAlgorithm_BinarySearch [1, 3, 5, 7, 9] 7) = Inr v \<and>
        callbackLog_sv v =
          [\<lparr>call_name = ''Binary Search'', call_time = 0, call_comparisons = 0,
            call_swaps = 0\<rparr>])"
proof -
  let ?i = "SearchVisualizer_init SearchAlgorithm_InterpolationSearch [3, 3, 3, 3, 3] 3"
  let ?b = "SearchVisualizer_init SearchAlgorithm_BinarySearch [1, 3, 5, 7, 9] 7"
  have ai: "m_currentAlgorithm_sv ?i = SearchAlgorithm_InterpolationSearch"
    and ab: "m_currentAlgorithm_sv ?b = SearchAlgorithm_BinarySearch"
    by (simp_all add: SearchVisualizer_init_def)
  from ai C10_only_linear_counts[where s = ?i and probe = exact_probe and ts = 0
      and ?t0.0 = 0 and ?t1.0 = 0]
  have i: "\<exists>v. StartSearch_clicked exact_probe 0 0 0 ?i = Inr v \<and>
        callbackLog_sv v =
          [\<lparr>call_name = ''Interpolation Search'', call_time = 0, call_comparisons = 0,
            call_swaps = 0\<rparr>]"
    by (simp add: SearchVisualizer_init_def GetAlgorithmName_sv_def duration_cast_ms_def)
  from ab C10_only_linear_counts[where s = ?b and probe = exact_probe and ts = 0
      and ?t0.0 = 0 and ?t1.0 = 0]
  have b: "\<exists>v. StartSearch_clicked exact_probe 0 0 0 ?b = Inr v \<and>
        callbackLog_sv v =
          [\<lparr>call_name = ''Binary Search'', call_time = 0, call_comparisons = 0,
            call_swaps = 0\<rparr>]"
    by (simp add: SearchVisualizer_init_def GetAlgorithmName_sv_def duration_cast_ms_def)
  from ai i ab b show ?thesis by blast
qed

end
